theory Spec2Isabelle
  imports Main
begin

section \<open>The repository as seen by \<^verbatim>\<open>analyze\<close>\<close>

text \<open>
  \<^verbatim>\<open>analyze.py\<close> reads a git repository through GitPython. The objects it reads are
  modelled as values: an entry of a tree traversal with the attributes the code uses
  (\<^verbatim>\<open>type\<close>, \<^verbatim>\<open>path\<close>, \<^verbatim>\<open>size\<close>), and a commit with \<^verbatim>\<open>hexsha\<close>,
  \<^verbatim>\<open>committed_date\<close>, \<^verbatim>\<open>author.name\<close>, \<^verbatim>\<open>parents\<close> and the list that
  \<^verbatim>\<open>commit.tree.traverse()\<close> yields. A history is finite, so the parents are a
  list of commits of the same datatype.
\<close>

datatype error = KeyboardInterrupt | Fault string

datatype objtype = Blob | Tree | Submodule

record entry =
  entry_type :: objtype
  entry_path :: string
  entry_size :: int

datatype commit =
  Commit (hexsha: string) (committed_date: int) (author_name: string)
         (parents: "commit list") (tree: "entry list")

record diff_entry =
  a_blob :: "entry option"
  b_blob :: "entry option"

text \<open>
  The calls into the repository: \<^verbatim>\<open>repo.iter_commits(branch)\<close>, \<^verbatim>\<open>repo.head.commit\<close>,
  \<^verbatim>\<open>repo.blame(commit, path)\<close>, which returns the pairs of a commit and the lines
  attributed to it or raises, and \<^verbatim>\<open>commit.diff(last_commit)\<close>.
\<close>

record repo =
  iter_commits :: "commit list"
  head_commit :: commit
  blame :: "commit \<Rightarrow> string \<Rightarrow> error + (commit \<times> string list) list"
  diff :: "commit \<Rightarrow> commit option \<Rightarrow> diff_entry list"

text \<open>
  The arguments of \<^verbatim>\<open>analyze\<close>. \<^verbatim>\<open>strftime\<close> is
  \<^verbatim>\<open>datetime.utcfromtimestamp(d).strftime(cohortfm)\<close> as a function of the timestamp;
  \<^verbatim>\<open>default_filetypes\<close> is the set collected from the Pygments lexers and
  \<^verbatim>\<open>fnmatch\<close> is \<^verbatim>\<open>fnmatch.fnmatch(name, pattern)\<close>: both come from libraries
  and are parameters here.
\<close>

record config =
  strftime :: "int \<Rightarrow> string"
  interval :: int
  ignore :: "string list"
  only :: "string list"
  all_filetypes :: bool
  default_filetypes :: "string list"
  fnmatch :: "string \<Rightarrow> string \<Rightarrow> bool"

subsection \<open>Paths\<close>

text \<open>\<^verbatim>\<open>os.path.split(path)[-1]\<close>, also GitPython's \<^verbatim>\<open>blob.name\<close>: what follows the last slash.\<close>

definition basename :: "string \<Rightarrow> string" where
  "basename p = rev (takeWhile (\<lambda>c. c \<noteq> CHR ''/'') (rev p))"

definition name :: "entry \<Rightarrow> string" where
  "name blob = basename (entry_path blob)"

text \<open>
  \<^verbatim>\<open>os.path.splitext\<close>: the extension starts at the last dot of the last component,
  leading dots of that component not counted.
\<close>

definition splitext :: "string \<Rightarrow> string \<times> string" where
  "splitext p =
     (let stem = dropWhile (\<lambda>c. c = CHR ''.'') (basename p);
          ext = (if CHR ''.'' \<in> set stem
                 then CHR ''.'' # rev (takeWhile (\<lambda>c. c \<noteq> CHR ''.'') (rev stem))
                 else [])
      in (take (length p - length ext) p, ext))"

subsection \<open>Histograms\<close>

text \<open>
  A key is a pair of a kind and a value, a string or (for \<^verbatim>\<open>filesize\<close>) an integer.
  A histogram is a Python dict from keys to counts, kept in insertion order.
\<close>

datatype val = Str string | Num int

type_synonym key = "string \<times> val"

type_synonym hist = "(key \<times> int) list"

text \<open>\<^verbatim>\<open>h[key] = h.get(key, 0) + n\<close>\<close>

fun hist_add :: "key \<Rightarrow> int \<Rightarrow> hist \<Rightarrow> hist" where
  "hist_add k n [] = [(k, n)]"
| "hist_add k n ((k', v) # h) =
     (if k = k' then (k', v + n) # h else (k', v) # hist_add k n h)"

text \<open>\<^verbatim>\<open>h.get(key, 0)\<close>\<close>

definition hist_get :: "hist \<Rightarrow> key \<Rightarrow> int" where
  "hist_get h k = (case map_of h k of None \<Rightarrow> 0 | Some v \<Rightarrow> v)"

text \<open>The sum of the counts of one kind.\<close>

definition kind_sum :: "string \<Rightarrow> hist \<Rightarrow> int" where
  "kind_sum kind h = sum_list (map snd (filter (\<lambda>(k, v). fst k = kind) h))"

section \<open>The file filter (lines 72--86)\<close>

text \<open>The expression that \<^verbatim>\<open>entry_path_ok\<close> stores for a path it has not seen.\<close>

definition path_ok :: "config \<Rightarrow> string \<Rightarrow> bool" where
  "path_ok cfg path =
     ((all_filetypes cfg \<or>
       list_ex (\<lambda>filetype. fnmatch cfg (basename path) filetype) (default_filetypes cfg))
      \<and> list_all (\<lambda>pattern. fnmatch cfg path pattern) (only cfg)
      \<and> \<not> list_ex (\<lambda>pattern. fnmatch cfg path pattern) (ignore cfg))"

text \<open>
  \<^verbatim>\<open>entry_path_ok\<close> with its cache \<^verbatim>\<open>ok_entry_paths\<close> passed in and returned: the
  value is computed only for a path that is not in the cache, and read from the cache
  in every case.
\<close>

definition entry_path_ok ::
  "config \<Rightarrow> (string \<rightharpoonup> bool) \<Rightarrow> string \<Rightarrow> bool \<times> (string \<rightharpoonup> bool)" where
  "entry_path_ok cfg ok_entry_paths path =
     (let m = (if ok_entry_paths path = None
               then ok_entry_paths(path \<mapsto> path_ok cfg path)
               else ok_entry_paths)
      in (case m path of Some b \<Rightarrow> b | None \<Rightarrow> False, m))"

text \<open>A run queries one path after another, each call seeing the cache the calls before left.\<close>

fun entry_path_ok_run ::
  "config \<Rightarrow> (string \<rightharpoonup> bool) \<Rightarrow> string list \<Rightarrow> bool list" where
  "entry_path_ok_run cfg m [] = []"
| "entry_path_ok_run cfg m (p # ps) =
     fst (entry_path_ok cfg m p) # entry_path_ok_run cfg (snd (entry_path_ok cfg m p)) ps"

text \<open>
  \<^verbatim>\<open>get_blob_entries\<close>. The cache starts empty and only \<^verbatim>\<open>entry_path_ok\<close> writes it,
  so every call returns \<^const>\<open>path_ok\<close> of its path (lemma \<open>entry_path_ok_cached\<close>
  below); from here on the filter is used without its cache.
\<close>

definition get_blob_entries :: "config \<Rightarrow> commit \<Rightarrow> entry list" where
  "get_blob_entries cfg commit =
     filter (\<lambda>entry. entry_type entry = Blob \<and> path_ok cfg (entry_path entry)) (tree commit)"

section \<open>Listing all commits (lines 46--57)\<close>

record commit_index =
  commit2cohort :: "string \<rightharpoonup> string"
  commit2timestamp :: "string \<rightharpoonup> int"
  curves_set :: "key list"

text \<open>
  One iteration of the loop over \<^verbatim>\<open>repo.iter_commits(branch)\<close>. \<^verbatim>\<open>curves_set\<close> is a
  set: it is a list without repetitions here, \<^const>\<open>List.insert\<close> adding a key only
  when it is new.
\<close>

definition index_commit :: "config \<Rightarrow> commit \<Rightarrow> commit_index \<Rightarrow> commit_index" where
  "index_commit cfg commit idx =
     (let cohort = strftime cfg (committed_date commit);
          idx1 = idx\<lparr>commit2cohort := (commit2cohort idx)(hexsha commit \<mapsto> cohort),
                     curves_set := List.insert (''author'', Str (author_name commit))
                                     (List.insert (''cohort'', Str cohort) (curves_set idx))\<rparr>
      in if length (parents commit) = 1
         then idx1\<lparr>commit2timestamp :=
                     (commit2timestamp idx1)(hexsha commit \<mapsto> committed_date commit)\<rparr>
         else idx1)"

definition list_commits :: "config \<Rightarrow> repo \<Rightarrow> commit_index" where
  "list_commits cfg r =
     fold (index_commit cfg) (iter_commits r)
       \<lparr>commit2cohort = Map.empty, commit2timestamp = Map.empty, curves_set = []\<rparr>"

section \<open>Backtracking the master branch (lines 59--70)\<close>

text \<open>
  The \<^verbatim>\<open>while True\<close> loop from a commit on, with \<^verbatim>\<open>last_date\<close>; the result is what
  the loop appends to \<^verbatim>\<open>master_commits\<close>, in the order of appending (tip first).
  The loop ends at the first commit without parents, which is not appended.
\<close>

fun backtrack :: "int \<Rightarrow> int option \<Rightarrow> commit \<Rightarrow> commit list" where
  "backtrack ival last_date (Commit h d a ps t) =
     (case ps of
        [] \<Rightarrow> []
      | p # _ \<Rightarrow>
          if (case last_date of None \<Rightarrow> True | Some l \<Rightarrow> d < l - ival)
          then Commit h d a ps t # backtrack ival (Some d) p
          else backtrack ival last_date p)"

definition master_commits :: "config \<Rightarrow> repo \<Rightarrow> commit list" where
  "master_commits cfg r = backtrack (interval cfg) None (head_commit r)"

text \<open>The checkpoints in the order in which they are processed: \<^verbatim>\<open>reversed(master_commits)\<close>.\<close>

definition checkpoints :: "config \<Rightarrow> repo \<Rightarrow> commit list" where
  "checkpoints cfg r = rev (master_commits cfg r)"

section \<open>Collecting the extension and file size keys (lines 88--99)\<close>

text \<open>
  The loop over the checkpoints and their blobs that adds the \<^verbatim>\<open>ext\<close> and
  \<^verbatim>\<open>filesize\<close> keys to \<^verbatim>\<open>curves_set\<close>. (\<^verbatim>\<open>entries_total\<close> only sizes the progress
  bar and is left out.)
\<close>

definition count_entries :: "config \<Rightarrow> commit list \<Rightarrow> key list \<Rightarrow> key list" where
  "count_entries cfg commits cs =
     fold (\<lambda>commit cs.
             fold (\<lambda>blob cs. List.insert (''filesize'', Num (entry_size blob))
                               (List.insert (''ext'', Str (snd (splitext (entry_path blob)))) cs))
                  (get_blob_entries cfg commit) cs)
          commits cs"

text \<open>Everything computed before the checkpoints are processed.\<close>

definition full_index :: "config \<Rightarrow> repo \<Rightarrow> commit_index" where
  "full_index cfg r =
     (let idx = list_commits cfg r
      in idx\<lparr>curves_set := count_entries cfg (checkpoints cfg r) (curves_set idx)\<rparr>)"

section \<open>The histogram of a file (lines 101--121)\<close>

text \<open>The keys that one pair \<^verbatim>\<open>(old_commit, lines)\<close> of the blame counts under.\<close>

definition blame_keys :: "config \<Rightarrow> commit_index \<Rightarrow> string \<Rightarrow> commit \<Rightarrow> key list" where
  "blame_keys cfg idx path old_commit =
     (let cohort = (case commit2cohort idx (hexsha old_commit) of
                      None \<Rightarrow> ''MISSING'' | Some c \<Rightarrow> c);
          ext = snd (splitext path);
          blobs = get_blob_entries cfg old_commit;
          size = map entry_size (filter (\<lambda>blob. name blob = path) blobs);
          keys = [(''cohort'', Str cohort), (''ext'', Str ext),
                  (''author'', Str (author_name old_commit)),
                  (''filesize'', Num (case size of [] \<Rightarrow> 0 | s # _ \<Rightarrow> s))]
      in case commit2timestamp idx (hexsha old_commit) of
           None \<Rightarrow> keys
         | Some _ \<Rightarrow> keys @ [(''sha'', Str (hexsha old_commit))])"

text \<open>The body of the \<^verbatim>\<open>for\<close> loop over the blame, for one pair.\<close>

definition count_lines ::
  "config \<Rightarrow> commit_index \<Rightarrow> string \<Rightarrow> commit \<times> string list \<Rightarrow> hist \<Rightarrow> hist" where
  "count_lines cfg idx path pair h =
     fold (\<lambda>key h. hist_add key (int (length (snd pair))) h)
          (blame_keys cfg idx path (fst pair)) h"

text \<open>
  \<^verbatim>\<open>get_file_histogram\<close>. \<^verbatim>\<open>repo.blame\<close> returns a list, so when it raises no pair
  has been counted. \<^verbatim>\<open>KeyboardInterrupt\<close> is raised again; any other exception is
  printed by \<^verbatim>\<open>traceback.print_exc()\<close>, which the second component of the result
  records, and \<^verbatim>\<open>h\<close> is returned as it is.
\<close>

definition get_file_histogram ::
  "repo \<Rightarrow> config \<Rightarrow> commit_index \<Rightarrow> commit \<Rightarrow> string \<Rightarrow> error + (hist \<times> error list)" where
  "get_file_histogram r cfg idx commit path =
     (case blame r commit path of
        Inl KeyboardInterrupt \<Rightarrow> Inl KeyboardInterrupt
      | Inl (Fault e) \<Rightarrow> Inr ([], [Fault e])
      | Inr groups \<Rightarrow> Inr (fold (count_lines cfg idx path) groups [], []))"

section \<open>Analyzing the commit history (lines 123--159)\<close>

text \<open>
  The variables of the loop. \<^verbatim>\<open>curves\<close> and \<^verbatim>\<open>commit_history\<close> are dicts of lists,
  kept in insertion order (the order in which \<^verbatim>\<open>survival.json\<close> lists the commits);
  \<^verbatim>\<open>reported\<close> is what has been printed by \<^verbatim>\<open>traceback.print_exc()\<close>.
\<close>

record state =
  curves :: "(key \<times> int list) list"
  ts :: "int list"
  file_histograms :: "string \<rightharpoonup> hist"
  last_commit :: "commit option"
  commit_history :: "(val \<times> (int \<times> int) list) list"
  reported :: "error list"

definition init_state :: state where
  "init_state = \<lparr>curves = [], ts = [], file_histograms = Map.empty,
                 last_commit = None, commit_history = [], reported = []\<rparr>"

text \<open>\<^verbatim>\<open>d.setdefault(k, []).append(v)\<close>\<close>

fun setdefault_append :: "'k \<Rightarrow> 'v \<Rightarrow> ('k \<times> 'v list) list \<Rightarrow> ('k \<times> 'v list) list" where
  "setdefault_append k v [] = [(k, [v])]"
| "setdefault_append k v ((k', l) # d) =
     (if k = k' then (k', l @ [v]) # d else (k', l) # setdefault_append k v d)"

text \<open>Lines 135--140: the paths of both sides of every diff entry.\<close>

definition changed_files :: "diff_entry list \<Rightarrow> string set" where
  "changed_files diffs =
     fold (\<lambda>d s.
             (let s1 = (case a_blob d of None \<Rightarrow> s | Some b \<Rightarrow> insert (entry_path b) s)
              in case b_blob d of None \<Rightarrow> s1 | Some b \<Rightarrow> insert (entry_path b) s1))
          diffs {}"

text \<open>Lines 150--151: adding the histogram of a file to the histogram of the checkpoint.\<close>

definition hist_merge :: "hist \<Rightarrow> hist \<Rightarrow> hist" where
  "hist_merge h histogram = fold (\<lambda>(key, count) H. hist_add key count H) h histogram"

text \<open>
  Lines 145--151: the loop over the blobs of a checkpoint, on the histogram of the
  checkpoint, the cache \<^verbatim>\<open>file_histograms\<close> and what has been printed. A
  \<^verbatim>\<open>KeyboardInterrupt\<close> ends it.
\<close>

fun merge_blobs ::
  "repo \<Rightarrow> config \<Rightarrow> commit_index \<Rightarrow> commit \<Rightarrow> string set \<Rightarrow> entry list
   \<Rightarrow> hist \<times> (string \<rightharpoonup> hist) \<times> error list
   \<Rightarrow> error + (hist \<times> (string \<rightharpoonup> hist) \<times> error list)" where
  "merge_blobs r cfg idx commit changed [] acc = Inr acc"
| "merge_blobs r cfg idx commit changed (blob # blobs) (histogram, fh, rep) =
     (if entry_path blob \<in> changed \<or> fh (entry_path blob) = None
      then (case get_file_histogram r cfg idx commit (entry_path blob) of
              Inl e \<Rightarrow> Inl e
            | Inr (h, tb) \<Rightarrow>
                merge_blobs r cfg idx commit changed blobs
                  (hist_merge h histogram, fh(entry_path blob \<mapsto> h), rep @ tb))
      else merge_blobs r cfg idx commit changed blobs
             (hist_merge (case fh (entry_path blob) of None \<Rightarrow> [] | Some h \<Rightarrow> h) histogram,
              fh, rep))"

text \<open>Lines 153--156: the survival entries of a checkpoint.\<close>

definition record_survival ::
  "commit \<Rightarrow> hist \<Rightarrow> (val \<times> (int \<times> int) list) list \<Rightarrow> (val \<times> (int \<times> int) list) list" where
  "record_survival commit histogram ch =
     fold (\<lambda>(key, count) ch.
             (case key of (key_type, key_item) \<Rightarrow>
                if key_type = ''sha''
                then setdefault_append key_item (committed_date commit, count) ch
                else ch))
          histogram ch"

text \<open>Lines 158--159: one more count for every key of \<^verbatim>\<open>curves_set\<close>.\<close>

definition append_curves ::
  "key list \<Rightarrow> hist \<Rightarrow> (key \<times> int list) list \<Rightarrow> (key \<times> int list) list" where
  "append_curves cs histogram c =
     fold (\<lambda>key c. setdefault_append key (hist_get histogram key) c) cs c"

text \<open>
  One iteration of the loop over the checkpoints (lines 132--159). The timestamp stands
  for the \<^verbatim>\<open>datetime\<close> appended to \<^verbatim>\<open>ts\<close>. The histogram of the checkpoint is
  returned next to the new state.
\<close>

definition process_commit ::
  "repo \<Rightarrow> config \<Rightarrow> commit_index \<Rightarrow> state \<Rightarrow> commit \<Rightarrow> error + (hist \<times> state)" where
  "process_commit r cfg idx st commit =
     (let changed = changed_files (diff r commit (last_commit st))
      in case merge_blobs r cfg idx commit changed (get_blob_entries cfg commit)
                ([], file_histograms st, reported st) of
           Inl e \<Rightarrow> Inl e
         | Inr (histogram, fh, rep) \<Rightarrow>
             Inr (histogram,
                  \<lparr>curves = append_curves (curves_set idx) histogram (curves st),
                   ts = ts st @ [committed_date commit],
                   file_histograms = fh,
                   last_commit = Some commit,
                   commit_history = record_survival commit histogram (commit_history st),
                   reported = rep\<rparr>))"

text \<open>The loop over the checkpoints: the histograms of the checkpoints and the last state.\<close>

fun analyze_loop ::
  "repo \<Rightarrow> config \<Rightarrow> commit_index \<Rightarrow> state \<Rightarrow> commit list \<Rightarrow> error + (hist list \<times> state)" where
  "analyze_loop r cfg idx st [] = Inr ([], st)"
| "analyze_loop r cfg idx st (commit # commits) =
     (case process_commit r cfg idx st commit of
        Inl e \<Rightarrow> Inl e
      | Inr (histogram, st') \<Rightarrow>
          (case analyze_loop r cfg idx st' commits of
             Inl e \<Rightarrow> Inl e
           | Inr (hs, st'') \<Rightarrow> Inr (histogram # hs, st'')))"

text \<open>\<^verbatim>\<open>analyze\<close> up to the point where the documents are written.\<close>

definition analyze :: "config \<Rightarrow> repo \<Rightarrow> error + (hist list \<times> state)" where
  "analyze cfg r = analyze_loop r cfg (full_index cfg r) init_state (checkpoints cfg r)"

section \<open>Quantities and inputs used in the statements\<close>

text \<open>The number of lines that a blame attributes.\<close>

definition blame_lines :: "(commit \<times> string list) list \<Rightarrow> int" where
  "blame_lines groups = sum_list (map (\<lambda>pair. int (length (snd pair))) groups)"

text \<open>The cohort under which the lines of a commit are counted (line 106).\<close>

definition cohort_label :: "commit_index \<Rightarrow> commit \<Rightarrow> string" where
  "cohort_label idx c =
     (case commit2cohort idx (hexsha c) of None \<Rightarrow> ''MISSING'' | Some l \<Rightarrow> l)"

text \<open>
  The paths of the blobs of a checkpoint that pass the filter, the number of lines that
  the blame at a commit attributes in a file (none when the blame raises), and their
  sum over the files of the checkpoint.
\<close>

definition paths_at :: "config \<Rightarrow> commit \<Rightarrow> string list" where
  "paths_at cfg commit = map entry_path (get_blob_entries cfg commit)"

definition attributed_lines :: "repo \<Rightarrow> commit \<Rightarrow> string \<Rightarrow> int" where
  "attributed_lines r commit path =
     (case blame r commit path of Inl e \<Rightarrow> 0 | Inr groups \<Rightarrow> blame_lines groups)"

definition attributed_total :: "repo \<Rightarrow> config \<Rightarrow> commit \<Rightarrow> int" where
  "attributed_total r cfg commit = sum_list (map (attributed_lines r commit) (paths_at cfg commit))"

text \<open>
  What the cache takes for granted between a checkpoint and the next: a file of the
  next checkpoint that the diff does not list was there at the checkpoint before and has
  the same blame (\<open>blame_stable\<close>) or, less, the same number of attributed lines
  (\<open>lines_stable\<close>) at both.
\<close>

definition blame_stable :: "repo \<Rightarrow> config \<Rightarrow> commit \<Rightarrow> commit \<Rightarrow> bool" where
  "blame_stable r cfg prev cur =
     list_all (\<lambda>p. p \<in> changed_files (diff r cur (Some prev))
                  \<or> (p \<in> set (paths_at cfg prev) \<and> blame r cur p = blame r prev p))
              (paths_at cfg cur)"








text \<open>A histogram whose cohort, extension and author counts have the same sum.\<close>

definition balanced :: "hist \<Rightarrow> bool" where
  "balanced h = (kind_sum ''cohort'' h = kind_sum ''ext'' h
                 \<and> kind_sum ''ext'' h = kind_sum ''author'' h)"

text \<open>
  The entries that the histograms of the checkpoints give a commit in the survival
  series: one for every checkpoint whose histogram has the key of the commit.
\<close>

definition survival_entries :: "commit list \<Rightarrow> hist list \<Rightarrow> val \<Rightarrow> (int \<times> int) list" where
  "survival_entries commits hs key_item =
     map (\<lambda>(commit, histogram). (committed_date commit, hist_get histogram (''sha'', key_item)))
         (filter (\<lambda>(commit, histogram). (''sha'', key_item) \<in> fst ` set histogram)
                 (zip commits hs))"

text \<open>
  What a run leaves: the dict written to \<^verbatim>\<open>survival.json\<close>, the cached histogram of
  a path, and the sums over the series of one kind at every checkpoint (the column sums
  of \<^verbatim>\<open>y\<close> in \<^verbatim>\<open>cohorts.json\<close>, for the kind \<^verbatim>\<open>cohort\<close>).
\<close>

definition survival_document :: "config \<Rightarrow> repo \<Rightarrow> (val \<times> (int \<times> int) list) list" where
  "survival_document cfg r =
     (case analyze cfg r of Inl e \<Rightarrow> [] | Inr (hs, st) \<Rightarrow> commit_history st)"

definition cached_histogram :: "config \<Rightarrow> repo \<Rightarrow> string \<Rightarrow> hist option" where
  "cached_histogram cfg r path =
     (case analyze cfg r of Inl e \<Rightarrow> None | Inr (hs, st) \<Rightarrow> file_histograms st path)"

definition series_total :: "key list \<Rightarrow> (key \<times> int list) list \<Rightarrow> string \<Rightarrow> nat \<Rightarrow> int" where
  "series_total cs c kind i =
     sum_list (map (\<lambda>k. case map_of c k of None \<Rightarrow> 0
                         | Some l \<Rightarrow> if i < length l then l ! i else 0)
                   (filter (\<lambda>k. fst k = kind) cs))"

definition series_totals :: "config \<Rightarrow> repo \<Rightarrow> string \<Rightarrow> int list" where
  "series_totals cfg r kind =
     (case analyze cfg r of
        Inl e \<Rightarrow> []
      | Inr (hs, st) \<Rightarrow>
          map (series_total (curves_set (full_index cfg r)) (curves st) kind) [0..<length hs])"

text \<open>
  An instance of \<^verbatim>\<open>fnmatch\<close> for the examples: shell patterns with \<^verbatim>\<open>*\<close> and
  \<^verbatim>\<open>?\<close> (no bracket expressions), the name first and the pattern second.
\<close>

fun glob :: "string \<Rightarrow> string \<Rightarrow> bool" where
  "glob [] [] = True"
| "glob (c # cs) [] = False"
| "glob [] (p # ps) = (p = CHR ''*'' \<and> glob [] ps)"
| "glob (c # cs) (p # ps) =
     (if p = CHR ''*'' then glob (c # cs) ps \<or> glob cs (p # ps)
      else (p = CHR ''?'' \<or> p = c) \<and> glob cs ps)"

text \<open>The configuration of the filter scenario: \<^verbatim>\<open>only=['*.py']\<close>, \<^verbatim>\<open>ignore=['test_*.py']\<close>.\<close>

definition ex_cfg :: config where
  "ex_cfg = \<lparr>strftime = (\<lambda>d. if d < 250 then ''2015'' else ''2016''), interval = 0,
             ignore = [''test_*.py''], only = [''*.py''], all_filetypes = False,
             default_filetypes = [''*.c'', ''*.py''], fnmatch = glob\<rparr>"

text \<open>
  A history \<^verbatim>\<open>R <- A <- B\<close> with head \<^verbatim>\<open>B\<close>. Every commit adds a line to
  \<^verbatim>\<open>f.py\<close>; \<^verbatim>\<open>src/g.py\<close> keeps the two lines that \<^verbatim>\<open>R\<close> wrote; the blame of
  \<^verbatim>\<open>bin.py\<close> raises; \<^verbatim>\<open>README.md\<close> is not of a recognized file type.
\<close>

definition st_tree :: "int \<Rightarrow> entry list" where
  "st_tree n =
     [\<lparr>entry_type = Blob, entry_path = ''README.md'', entry_size = 5\<rparr>,
      \<lparr>entry_type = Blob, entry_path = ''bin.py'', entry_size = 1\<rparr>,
      \<lparr>entry_type = Blob, entry_path = ''f.py'', entry_size = n\<rparr>,
      \<lparr>entry_type = Tree, entry_path = ''src'', entry_size = 0\<rparr>,
      \<lparr>entry_type = Blob, entry_path = ''src/g.py'', entry_size = 8\<rparr>]"

definition st_R :: commit where
  "st_R = Commit ''R'' 0 ''ann'' [] (st_tree 3)"

definition st_A :: commit where
  "st_A = Commit ''A'' 100 ''bob'' [st_R] (st_tree 6)"

definition st_B :: commit where
  "st_B = Commit ''B'' 200 ''ann'' [st_A] (st_tree 9)"

definition st_blame :: "commit \<Rightarrow> string \<Rightarrow> error + (commit \<times> string list) list" where
  "st_blame c p =
     (if p = ''f.py'' then
        (if hexsha c = ''R'' then Inr [(st_R, [''l1''])]
         else if hexsha c = ''A'' then Inr [(st_R, [''l1'']), (st_A, [''l2''])]
         else Inr [(st_R, [''l1'']), (st_A, [''l2'']), (st_B, [''l3''])])
      else if p = ''src/g.py'' then Inr [(st_R, [''g1'', ''g2''])]
      else Inl (Fault ''no blame''))"

definition st_diff :: "commit \<Rightarrow> commit option \<Rightarrow> diff_entry list" where
  "st_diff c prev =
     (case prev of
        None \<Rightarrow> []
      | Some c' \<Rightarrow>
          [\<lparr>a_blob = Some \<lparr>entry_type = Blob, entry_path = ''f.py'', entry_size = 0\<rparr>,
            b_blob = Some \<lparr>entry_type = Blob, entry_path = ''f.py'', entry_size = 0\<rparr>\<rparr>])"

definition st_repo :: repo where
  "st_repo = \<lparr>iter_commits = [st_B, st_A, st_R], head_commit = st_B,
              blame = st_blame, diff = st_diff\<rparr>"

definition st_cfg :: config where
  "st_cfg = \<lparr>strftime = (\<lambda>d. if d < 150 then ''2015'' else ''2016''), interval = 0,
             ignore = [], only = [], all_filetypes = False,
             default_filetypes = [''*.c'', ''*.py''], fnmatch = glob\<rparr>"


text \<open>
  The same history with the analyzed branch at \<^verbatim>\<open>A\<close> and the head at \<^verbatim>\<open>B\<close>:
  \<^verbatim>\<open>iter_commits\<close> does not reach \<^verbatim>\<open>B\<close>.
\<close>

definition hd_repo :: repo where
  "hd_repo = st_repo\<lparr>iter_commits := [st_A, st_R]\<rparr>"

text \<open>
  A change and its revert between two checkpoints: \<^verbatim>\<open>R <- P <- X <- Y\<close>, where
  \<^verbatim>\<open>P\<close> adds the line \<^verbatim>\<open>p\<close> to \<^verbatim>\<open>f.py\<close>, \<^verbatim>\<open>X\<close> rewrites it and \<^verbatim>\<open>Y\<close>
  restores it. The trees of \<^verbatim>\<open>P\<close> and \<^verbatim>\<open>Y\<close> are equal, so their diff is empty;
  git blames the restored line on \<^verbatim>\<open>Y\<close>. With an interval of 70 the checkpoints
  are \<^verbatim>\<open>P\<close> and \<^verbatim>\<open>Y\<close>.
\<close>

definition rv_tree :: "int \<Rightarrow> entry list" where
  "rv_tree n = [\<lparr>entry_type = Blob, entry_path = ''f.py'', entry_size = n\<rparr>]"

definition rv_R :: commit where
  "rv_R = Commit ''R'' 0 ''ann'' [] (rv_tree 2)"

definition rv_P :: commit where
  "rv_P = Commit ''P'' 100 ''bob'' [rv_R] (rv_tree 4)"

definition rv_X :: commit where
  "rv_X = Commit ''X'' 150 ''cat'' [rv_P] (rv_tree 4)"

definition rv_Y :: commit where
  "rv_Y = Commit ''Y'' 200 ''cat'' [rv_X] (rv_tree 4)"

definition rv_blame :: "commit \<Rightarrow> string \<Rightarrow> error + (commit \<times> string list) list" where
  "rv_blame c p =
     (if p = ''f.py'' then
        (if hexsha c = ''R'' then Inr [(rv_R, [''r''])]
         else if hexsha c = ''P'' then Inr [(rv_R, [''r'']), (rv_P, [''p''])]
         else if hexsha c = ''X'' then Inr [(rv_R, [''r'']), (rv_X, [''x''])]
         else Inr [(rv_R, [''r'']), (rv_Y, [''p''])])
      else Inl (Fault ''no blame''))"

definition rv_diff :: "commit \<Rightarrow> commit option \<Rightarrow> diff_entry list" where
  "rv_diff c prev =
     (case prev of
        None \<Rightarrow> []
      | Some c' \<Rightarrow>
          if hexsha c = hexsha c' \<or> (hexsha c = ''Y'' \<and> hexsha c' = ''P'')
             \<or> (hexsha c = ''P'' \<and> hexsha c' = ''Y'')
          then []
          else [\<lparr>a_blob = Some \<lparr>entry_type = Blob, entry_path = ''f.py'', entry_size = 0\<rparr>,
                 b_blob = Some \<lparr>entry_type = Blob, entry_path = ''f.py'', entry_size = 0\<rparr>\<rparr>])"

definition rv_repo :: repo where
  "rv_repo = \<lparr>iter_commits = [rv_Y, rv_X, rv_P, rv_R], head_commit = rv_Y,
              blame = rv_blame, diff = rv_diff\<rparr>"

definition rv_cfg :: config where
  "rv_cfg = st_cfg\<lparr>interval := 70\<rparr>"


text \<open>
  A history \<^verbatim>\<open>R <- P <- H\<close> whose head \<^verbatim>\<open>H\<close> has an earlier timestamp (200) than
  its parent \<^verbatim>\<open>P\<close> (300), analyzed with the negative interval \<^verbatim>\<open>-200\<close>.
\<close>

definition ng_R :: commit where
  "ng_R = Commit ''R'' 0 ''ann'' [] []"

definition ng_P :: commit where
  "ng_P = Commit ''P'' 300 ''ann'' [ng_R] []"

definition ng_H :: commit where
  "ng_H = Commit ''H'' 200 ''ann'' [ng_P] []"

definition ng_repo :: repo where
  "ng_repo = \<lparr>iter_commits = [ng_H, ng_P, ng_R], head_commit = ng_H,
              blame = (\<lambda>c p. Inl (Fault ''no blame'')), diff = (\<lambda>c prev. [])\<rparr>"

definition ng_cfg :: config where
  "ng_cfg = st_cfg\<lparr>interval := - 200\<rparr>"

text \<open>
  A merge that brings lines back: \<^verbatim>\<open>X\<close> adds two lines to \<^verbatim>\<open>f.py\<close>; on the
  mainline \<^verbatim>\<open>W\<close> deletes one of them and \<^verbatim>\<open>V\<close> the other; \<^verbatim>\<open>S\<close> is a side
  branch from \<^verbatim>\<open>X\<close> that adds \<^verbatim>\<open>g.py\<close>; the merge \<^verbatim>\<open>M\<close> of \<^verbatim>\<open>V\<close> and
  \<^verbatim>\<open>S\<close> takes \<^verbatim>\<open>f.py\<close> as it is in \<^verbatim>\<open>S\<close>. The blame at \<^verbatim>\<open>M\<close> follows the
  parent with the identical file and attributes both lines to \<^verbatim>\<open>X\<close>.
\<close>

definition mg_R :: commit where
  "mg_R = Commit ''R'' 0 ''ann'' [] [\<lparr>entry_type = Blob, entry_path = ''f.py'', entry_size = 2\<rparr>]"

definition mg_X :: commit where
  "mg_X = Commit ''X'' 100 ''bob'' [mg_R] [\<lparr>entry_type = Blob, entry_path = ''f.py'', entry_size = 8\<rparr>]"

definition mg_W :: commit where
  "mg_W = Commit ''W'' 200 ''cat'' [mg_X] [\<lparr>entry_type = Blob, entry_path = ''f.py'', entry_size = 5\<rparr>]"

definition mg_V :: commit where
  "mg_V = Commit ''V'' 250 ''cat'' [mg_W] [\<lparr>entry_type = Blob, entry_path = ''f.py'', entry_size = 2\<rparr>]"

definition mg_S :: commit where
  "mg_S = Commit ''S'' 150 ''dan'' [mg_X]
            [\<lparr>entry_type = Blob, entry_path = ''f.py'', entry_size = 8\<rparr>,
             \<lparr>entry_type = Blob, entry_path = ''g.py'', entry_size = 3\<rparr>]"

definition mg_M :: commit where
  "mg_M = Commit ''M'' 300 ''cat'' [mg_V, mg_S]
            [\<lparr>entry_type = Blob, entry_path = ''f.py'', entry_size = 8\<rparr>,
             \<lparr>entry_type = Blob, entry_path = ''g.py'', entry_size = 3\<rparr>]"

definition mg_blame :: "commit \<Rightarrow> string \<Rightarrow> error + (commit \<times> string list) list" where
  "mg_blame c p =
     (if p = ''f.py'' then
        (if hexsha c = ''R'' \<or> hexsha c = ''V'' then Inr [(mg_R, [''r''])]
         else if hexsha c = ''W'' then Inr [(mg_R, [''r'']), (mg_X, [''x1''])]
         else Inr [(mg_R, [''r'']), (mg_X, [''x1'', ''x2''])])
      else if p = ''g.py'' \<and> (hexsha c = ''S'' \<or> hexsha c = ''M'') then Inr [(mg_S, [''g1''])]
      else Inl (Fault ''no blame''))"

definition mg_diff :: "commit \<Rightarrow> commit option \<Rightarrow> diff_entry list" where
  "mg_diff c prev =
     (case prev of
        None \<Rightarrow> []
      | Some c' \<Rightarrow>
          \<lparr>a_blob = Some \<lparr>entry_type = Blob, entry_path = ''f.py'', entry_size = 0\<rparr>,
           b_blob = Some \<lparr>entry_type = Blob, entry_path = ''f.py'', entry_size = 0\<rparr>\<rparr>
          # (if hexsha c = ''M''
             then [\<lparr>a_blob = Some \<lparr>entry_type = Blob, entry_path = ''g.py'', entry_size = 3\<rparr>,
                    b_blob = None\<rparr>]
             else []))"

definition mg_repo :: repo where
  "mg_repo = \<lparr>iter_commits = [mg_M, mg_V, mg_W, mg_S, mg_X, mg_R], head_commit = mg_M,
              blame = mg_blame, diff = mg_diff\<rparr>"

text \<open>
  The scenario of three commits: \<^verbatim>\<open>c1 <- c2 <- c3\<close> with timestamps \<open>t1\<close>, \<open>t2\<close>,
  \<open>t3\<close>, each adding one line to \<^verbatim>\<open>a.py\<close>; the interval is 0 and the cohort of a
  timestamp is given by \<open>f\<close>.
\<close>

definition lin_tree :: "int \<Rightarrow> entry list" where
  "lin_tree n = [\<lparr>entry_type = Blob, entry_path = ''a.py'', entry_size = n\<rparr>]"

definition lin_c1 :: "int \<Rightarrow> commit" where
  "lin_c1 t1 = Commit ''c1'' t1 ''ann'' [] (lin_tree 2)"

definition lin_c2 :: "int \<Rightarrow> int \<Rightarrow> commit" where
  "lin_c2 t1 t2 = Commit ''c2'' t2 ''ann'' [lin_c1 t1] (lin_tree 4)"

definition lin_c3 :: "int \<Rightarrow> int \<Rightarrow> int \<Rightarrow> commit" where
  "lin_c3 t1 t2 t3 = Commit ''c3'' t3 ''ann'' [lin_c2 t1 t2] (lin_tree 6)"

definition lin_blame ::
  "int \<Rightarrow> int \<Rightarrow> int \<Rightarrow> commit \<Rightarrow> string \<Rightarrow> error + (commit \<times> string list) list" where
  "lin_blame t1 t2 t3 c p =
     (if p = ''a.py'' then
        (if hexsha c = ''c1'' then Inr [(lin_c1 t1, [''one''])]
         else if hexsha c = ''c2'' then Inr [(lin_c1 t1, [''one'']), (lin_c2 t1 t2, [''two''])]
         else Inr [(lin_c1 t1, [''one'']), (lin_c2 t1 t2, [''two'']),
                   (lin_c3 t1 t2 t3, [''three''])])
      else Inl (Fault ''no blame''))"

definition lin_diff :: "commit \<Rightarrow> commit option \<Rightarrow> diff_entry list" where
  "lin_diff c prev =
     (case prev of
        None \<Rightarrow> []
      | Some c' \<Rightarrow>
          [\<lparr>a_blob = Some \<lparr>entry_type = Blob, entry_path = ''a.py'', entry_size = 0\<rparr>,
            b_blob = Some \<lparr>entry_type = Blob, entry_path = ''a.py'', entry_size = 0\<rparr>\<rparr>])"

definition lin_repo :: "int \<Rightarrow> int \<Rightarrow> int \<Rightarrow> repo" where
  "lin_repo t1 t2 t3 =
     \<lparr>iter_commits = [lin_c3 t1 t2 t3, lin_c2 t1 t2, lin_c1 t1],
      head_commit = lin_c3 t1 t2 t3, blame = lin_blame t1 t2 t3, diff = lin_diff\<rparr>"

definition lin_cfg :: "(int \<Rightarrow> string) \<Rightarrow> config" where
  "lin_cfg f = st_cfg\<lparr>strftime := f\<rparr>"

section \<open>Basic facts about histograms, paths and the backward walk\<close>

lemma hist_get_add: "hist_get (hist_add k n h) k' = hist_get h k' + (if k = k' then n else 0)"
  by (induction h) (auto simp: hist_get_def)

lemma map_fst_hist_add:
  "map fst (hist_add k n h) = (if k \<in> set (map fst h) then map fst h else map fst h @ [k])"
proof (induction h)
  case Nil
  show ?case by simp
next
  case (Cons x h)
  obtain k' v where x: "x = (k', v)" by (cases x)
  show ?case using Cons by (cases "k = k'") (simp_all add: x)
qed

lemma keys_hist_add: "fst ` set (hist_add k n h) = insert k (fst ` set h)"
  using map_fst_hist_add [of k n h] by (metis (no_types, lifting) insert_absorb list.set_map list.simps(15) set_append set_simps(1) Un_insert_right sup_bot.right_neutral list.set(1))

lemma distinct_hist_add: "distinct (map fst h) \<Longrightarrow> distinct (map fst (hist_add k n h))"
  by (simp add: map_fst_hist_add)

lemma kind_sum_add: "kind_sum kind (hist_add k n h) = kind_sum kind h + (if fst k = kind then n else 0)"
  by (induction h) (auto simp: kind_sum_def)

lemma basename_no_slash: "CHR ''/'' \<notin> set (basename p)"
  unfolding basename_def by (auto dest: set_takeWhileD)

lemma basename_idem: "basename (basename p) = basename p"
proof -
  have h: "takeWhile (\<lambda>c. c \<noteq> CHR ''/'') (rev (basename p)) = rev (basename p)"
    using basename_no_slash [of p] by (auto simp: takeWhile_eq_all_conv)
  show ?thesis by (simp only: basename_def [of "basename p"] h rev_rev_ident)
qed

lemma name_neq_subdir_path: "path \<noteq> basename path \<Longrightarrow> name blob \<noteq> path"
  unfolding name_def using basename_idem by metis

lemma backtrack_gaps:
  "successively (\<lambda>a b. committed_date b < committed_date a - ival) (backtrack ival ld c)
   \<and> (case ld of None \<Rightarrow> True
       | Some l \<Rightarrow> (case backtrack ival ld c of [] \<Rightarrow> True
                    | x # _ \<Rightarrow> committed_date x < l - ival))"
proof (induction ival ld c rule: backtrack.induct)
  case (1 ival last_date h d a ps t)
  show ?case
  proof (cases ps)
    case Nil
    then show ?thesis by (simp split: option.splits)
  next
    case (Cons p ps')
    show ?thesis
    proof (cases "case last_date of None \<Rightarrow> True | Some l \<Rightarrow> d < l - ival")
      case True
      with Cons 1(1)[OF Cons True] show ?thesis 
        by (auto simp: successively_Cons split: option.splits list.splits)
    next
      case False
      with Cons 1(2)[OF Cons False] show ?thesis
        by (auto split: option.splits list.splits)
    qed
  qed
qed

section \<open>The file filter\<close>

lemma entry_path_ok_cached:
  assumes "\<forall>p b. m p = Some b \<longrightarrow> b = path_ok cfg p"
  shows "fst (entry_path_ok cfg m path) = path_ok cfg path"
    and "\<forall>p b. snd (entry_path_ok cfg m path) p = Some b \<longrightarrow> b = path_ok cfg p"
  using assms by (auto simp: entry_path_ok_def Let_def split: option.splits)

lemma entry_path_ok_run_nth:
  assumes "\<forall>p b. m p = Some b \<longrightarrow> b = path_ok cfg p" and "i < length paths"
  shows "entry_path_ok_run cfg m paths ! i = path_ok cfg (paths ! i)"
  using assms
proof (induction paths arbitrary: m i)
  case Nil
  then show ?case by simp
next
  case (Cons p ps)
  show ?case
  proof (cases i)
    case 0
    then show ?thesis using entry_path_ok_cached(1) [OF Cons.prems(1)] by simp
  next
    case (Suc j)
    then show ?thesis
      using Cons.IH [OF entry_path_ok_cached(2) [OF Cons.prems(1)], of j] Cons.prems(2) by simp
  qed
qed

text \<open>
  Claim C2. Whatever paths a run queries, in whatever order, a query answers true only
  if the three conditions hold for the path: its file name matches a pattern of the
  catalog of file types unless \<^verbatim>\<open>all_filetypes\<close> is set; when \<^verbatim>\<open>only\<close> is not empty,
  the path matches at least one of its patterns; and the path matches no pattern of
  \<^verbatim>\<open>ignore\<close>. (The code asks for more than the second condition: the path has to
  match every pattern of \<^verbatim>\<open>only\<close>.)
\<close>

theorem entry_path_ok_only_if:
  assumes "i < length paths" and "entry_path_ok_run cfg Map.empty paths ! i"
  shows "(all_filetypes cfg \<or>
          (\<exists>filetype \<in> set (default_filetypes cfg). fnmatch cfg (basename (paths ! i)) filetype))
       \<and> (only cfg \<noteq> [] \<longrightarrow> (\<exists>pattern \<in> set (only cfg). fnmatch cfg (paths ! i) pattern))
       \<and> (\<forall>pattern \<in> set (ignore cfg). \<not> fnmatch cfg (paths ! i) pattern)"
proof -
  have "path_ok cfg (paths ! i)"
    using entry_path_ok_run_nth [of Map.empty cfg i paths] assms by simp
  then show ?thesis
    by (cases "only cfg") (auto simp: path_ok_def list_ex_iff list_all_iff)
qed

theorem entry_path_ok_only_if_witness:
  "0 < length [''a.py'', ''test_a.py'', ''b.txt'']
   \<and> entry_path_ok_run ex_cfg Map.empty [''a.py'', ''test_a.py'', ''b.txt''] ! 0
   \<and> only ex_cfg \<noteq> []
   \<and> (\<exists>pattern \<in> set (only ex_cfg). fnmatch ex_cfg ''a.py'' pattern)
   \<and> \<not> fnmatch ex_cfg ''a.py'' ''test_*.py''"
proof -
  have len: "0 < length [''a.py'', ''test_a.py'', ''b.txt'']" by simp
  have run: "entry_path_ok_run ex_cfg Map.empty [''a.py'', ''test_a.py'', ''b.txt''] ! 0"
    by (simp add: entry_path_ok_def path_ok_def ex_cfg_def basename_def)
  have ne: "only ex_cfg \<noteq> []" by (simp add: ex_cfg_def)
  show ?thesis
    using entry_path_ok_only_if [OF len run] len run ne by (simp add: ex_cfg_def)
qed

text \<open>
  The conditions of C2 are necessary, not sufficient: a path that matches one pattern of
  \<^verbatim>\<open>only\<close> but not all of them is not trackable.
\<close>

lemma entry_path_ok_needs_all_patterns:
  "entry_path_ok_run (ex_cfg\<lparr>only := [''*.py'', ''a*'']\<rparr>) Map.empty [''a.py'', ''b.py'']
     = [True, False]"
  by (simp add: entry_path_ok_def path_ok_def ex_cfg_def basename_def)

section \<open>The checkpoints\<close>

lemma checkpoints_successively:
  "successively (\<lambda>c c'. interval cfg < committed_date c' - committed_date c) (checkpoints cfg r)"
proof -
  have "successively (\<lambda>a b. committed_date b < committed_date a - interval cfg)
          (master_commits cfg r)"
    unfolding master_commits_def using backtrack_gaps by blast
  then show ?thesis
    unfolding checkpoints_def by (simp add: algebra_simps)
qed

lemma successively_nth:
  "successively P xs \<Longrightarrow> Suc i < length xs \<Longrightarrow> P (xs ! i) (xs ! Suc i)"
proof (induction P xs arbitrary: i rule: successively.induct)
  case (3 P x y xs)
  then show ?case by (cases i) auto
qed auto

text \<open>
  Claim C8, as the code has it. Two consecutive checkpoints are at least
  \<^verbatim>\<open>interval\<close> apart (more than \<^verbatim>\<open>interval\<close>, in fact, and at every position of
  the list, the one nearest the tip included), and for an interval that is not negative
  the list of checkpoints is strictly ascending by timestamp.
\<close>

theorem checkpoints_ascending_gaps:
  assumes "Suc i < length (checkpoints cfg r)"
  shows "committed_date (checkpoints cfg r ! Suc i) - committed_date (checkpoints cfg r ! i)
           \<ge> interval cfg
       \<and> (0 \<le> interval cfg \<longrightarrow> sorted_wrt (<) (map committed_date (checkpoints cfg r)))"
proof -
  let ?cps = "checkpoints cfg r"
  have s: "successively (\<lambda>c c'. interval cfg < committed_date c' - committed_date c) ?cps"
    by (rule checkpoints_successively)
  have gap: "interval cfg < committed_date (?cps ! Suc i) - committed_date (?cps ! i)"
    using successively_nth [OF s assms] .
  have "sorted_wrt (<) (map committed_date ?cps)" if "0 \<le> interval cfg"
  proof -
    have "successively (\<lambda>c c'. committed_date c < committed_date c') ?cps"
      using s that by (rule_tac successively_mono [OF s]) auto
    then have "successively (<) (map committed_date ?cps)"
      by (simp add: successively_map)
    then show ?thesis
      by (simp add: successively_conv_sorted_wrt)
  qed
  with gap show ?thesis by simp
qed

lemma st_checkpoints: "checkpoints st_cfg st_repo = [st_A, st_B]"
  by (simp add: checkpoints_def master_commits_def st_repo_def st_cfg_def st_A_def st_B_def st_R_def)

theorem checkpoints_ascending_gaps_witness:
  "Suc 0 < length (checkpoints st_cfg st_repo) \<and> 0 \<le> interval st_cfg
   \<and> committed_date (checkpoints st_cfg st_repo ! Suc 0)
       - committed_date (checkpoints st_cfg st_repo ! 0) \<ge> interval st_cfg
   \<and> sorted_wrt (<) (map committed_date (checkpoints st_cfg st_repo))"
proof -
  have len: "Suc 0 < length (checkpoints st_cfg st_repo)"
    by (simp add: st_checkpoints)
  have ival: "0 \<le> interval st_cfg"
    by (simp add: st_cfg_def)
  show ?thesis
    using checkpoints_ascending_gaps [OF len] len ival by simp
qed

text \<open>
  Against claim C8 as stated: with the interval \<^verbatim>\<open>-200\<close> and a head that is 100
  older than its parent, the checkpoints have the timestamps 300 and 200, in this order,
  and the list is not ascending.
\<close>

theorem checkpoints_negative_interval_counterexample:
  "interval ng_cfg = - 200
   \<and> map committed_date (checkpoints ng_cfg ng_repo) = [300, 200]
   \<and> \<not> sorted_wrt (<) (map committed_date (checkpoints ng_cfg ng_repo))"
  by code_simp

section \<open>The histogram of a file\<close>

lemma kind_sum_fold_add:
  "kind_sum kind (fold (\<lambda>key h. hist_add key n h) ks h)
     = kind_sum kind h + n * int (length (filter (\<lambda>k. fst k = kind) ks))"
  by (induction ks arbitrary: h) (auto simp: kind_sum_add algebra_simps)

lemma hist_get_fold_add:
  "hist_get (fold (\<lambda>key h. hist_add key n h) ks h) k
     = hist_get h k + n * int (count_list ks k)"
  by (induction ks arbitrary: h) (auto simp: hist_get_add algebra_simps)

lemma keys_fold_add:
  "fst ` set (fold (\<lambda>key h. hist_add key n h) ks h) = set ks \<union> fst ` set h"
  by (induction ks arbitrary: h) (auto simp: keys_hist_add)

lemma blame_keys_kinds:
  assumes "kind \<in> {''cohort'', ''ext'', ''author'', ''filesize''}"
  shows "length (filter (\<lambda>k. fst k = kind) (blame_keys cfg idx path c)) = 1"
  using assms by (auto simp: blame_keys_def Let_def split: option.splits)

lemma kind_sum_count_lines:
  assumes "kind \<in> {''cohort'', ''ext'', ''author'', ''filesize''}"
  shows "kind_sum kind (count_lines cfg idx path pair h) = kind_sum kind h + int (length (snd pair))"
  unfolding count_lines_def kind_sum_fold_add blame_keys_kinds [OF assms] by simp

lemma kind_sum_fold_count_lines:
  assumes "kind \<in> {''cohort'', ''ext'', ''author'', ''filesize''}"
  shows "kind_sum kind (fold (count_lines cfg idx path) groups h) = kind_sum kind h + blame_lines groups"
  by (induction groups arbitrary: h) (simp_all add: blame_lines_def kind_sum_count_lines [OF assms])

lemma kind_sum_Nil: "kind_sum kind [] = 0"
  by (simp add: kind_sum_def)

lemma hist_get_Nil: "hist_get [] k = 0"
  by (simp add: hist_get_def)

text \<open>The file size key of a path with a directory part.\<close>

lemma blame_keys_subdir:
  assumes "path \<noteq> basename path"
  shows "count_list (blame_keys cfg idx path c) (''filesize'', Num s) = (if s = 0 then 1 else 0)"
proof -
  have "filter (\<lambda>blob. name blob = path) (get_blob_entries cfg c) = []"
    using name_neq_subdir_path [OF assms] by (simp add: filter_empty_conv)
  then show ?thesis
    by (auto simp: blame_keys_def Let_def split: option.splits)
qed

lemma hist_get_count_lines_subdir:
  assumes "path \<noteq> basename path"
  shows "hist_get (fold (count_lines cfg idx path) groups h) (''filesize'', Num s)
           = hist_get h (''filesize'', Num s) + (if s = 0 then blame_lines groups else 0)"
  by (induction groups arbitrary: h)
     (simp_all add: blame_lines_def count_lines_def hist_get_fold_add blame_keys_subdir [OF assms])

lemma keys_count_lines_subdir:
  assumes "path \<noteq> basename path"
  shows "(''filesize'', Num s) \<in> fst ` set (fold (count_lines cfg idx path) groups h)
         \<Longrightarrow> s = 0 \<or> (''filesize'', Num s) \<in> fst ` set h"
proof (induction groups arbitrary: h)
  case Nil
  then show ?case by simp
next
  case (Cons g groups)
  from Cons.IH [OF Cons.prems [simplified]]
  have "s = 0 \<or> (''filesize'', Num s) \<in> fst ` set (count_lines cfg idx path g h)" .
  moreover have "(''filesize'', Num s) \<in> set (blame_keys cfg idx path (fst g)) \<Longrightarrow> s = 0"
    using blame_keys_subdir [OF assms, of cfg idx "fst g" s]
    by (auto simp: count_list_0_iff split: if_splits)
  ultimately show ?case
    by (auto simp: count_lines_def keys_fold_add)
qed

text \<open>
  Claim C10. The size is looked up by comparing \<^verbatim>\<open>blob.name\<close>, a base name, with the
  full path. For a path that differs from its base name no blob matches, so when the
  blame succeeds every line of the file is counted under \<^verbatim>\<open>('filesize', 0)\<close> and the
  histogram has no other \<^verbatim>\<open>filesize\<close> key.
\<close>

theorem filesize_subdir_zero:
  assumes "path \<noteq> basename path" and "blame r commit path = Inr groups"
  shows "\<exists>h. get_file_histogram r cfg idx commit path = Inr (h, [])
           \<and> hist_get h (''filesize'', Num 0) = blame_lines groups
           \<and> (\<forall>s. (''filesize'', Num s) \<in> fst ` set h \<longrightarrow> s = 0)"
proof -
  let ?h = "fold (count_lines cfg idx path) groups []"
  have "get_file_histogram r cfg idx commit path = Inr (?h, [])"
    using assms(2) by (simp add: get_file_histogram_def)
  moreover have "hist_get ?h (''filesize'', Num 0) = blame_lines groups"
    by (simp add: hist_get_count_lines_subdir [OF assms(1)] hist_get_Nil)
  moreover have "\<forall>s. (''filesize'', Num s) \<in> fst ` set ?h \<longrightarrow> s = 0"
    using keys_count_lines_subdir [OF assms(1), of _ cfg idx groups "[]"] by auto
  ultimately show ?thesis by blast
qed

theorem filesize_subdir_zero_witness:
  "''src/g.py'' \<noteq> basename ''src/g.py''
   \<and> blame st_repo st_B ''src/g.py'' = Inr [(st_R, [''g1'', ''g2''])]
   \<and> (\<exists>h. get_file_histogram st_repo st_cfg (full_index st_cfg st_repo) st_B ''src/g.py'' = Inr (h, [])
           \<and> hist_get h (''filesize'', Num 0) = 2
           \<and> (\<forall>s. (''filesize'', Num s) \<in> fst ` set h \<longrightarrow> s = 0))"
proof -
  have p: "''src/g.py'' \<noteq> basename ''src/g.py''"
    by (simp add: basename_def)
  have b: "blame st_repo st_B ''src/g.py'' = Inr [(st_R, [''g1'', ''g2''])]"
    by (simp add: st_repo_def st_blame_def)
  show ?thesis
    using filesize_subdir_zero [OF p b, of st_cfg "full_index st_cfg st_repo"] p b
    by (simp add: blame_lines_def)
qed

section \<open>Faults of the blame\<close>


lemma get_file_histogram_total:
  assumes "blame r commit path \<noteq> Inl KeyboardInterrupt"
  shows "\<exists>res. get_file_histogram r cfg idx commit path = Inr res"
  using assms by (auto simp: get_file_histogram_def split: sum.splits error.splits)

lemma merge_blobs_total:
  assumes "\<forall>c p. blame r c p \<noteq> Inl KeyboardInterrupt"
  shows "\<exists>res. merge_blobs r cfg idx commit changed blobs (histogram, fh, rep) = Inr res"
proof (induction blobs arbitrary: histogram fh rep)
  case Nil
  show ?case by simp
next
  case (Cons blob blobs)
  obtain h tb where "get_file_histogram r cfg idx commit (entry_path blob) = Inr (h, tb)"
    using get_file_histogram_total [of r commit "entry_path blob" cfg idx] assms by auto
  then show ?case using Cons.IH by simp
qed

lemma process_commit_total:
  assumes "\<forall>c p. blame r c p \<noteq> Inl KeyboardInterrupt"
  shows "\<exists>res. process_commit r cfg idx st commit = Inr res"
proof -
  obtain res where "merge_blobs r cfg idx commit
      (changed_files (diff r commit (last_commit st))) (get_blob_entries cfg commit)
      ([], file_histograms st, reported st) = Inr res"
    using merge_blobs_total [OF assms] by blast
  then show ?thesis by (cases res) (simp add: process_commit_def)
qed

lemma analyze_loop_total:
  assumes "\<forall>c p. blame r c p \<noteq> Inl KeyboardInterrupt"
  shows "\<exists>res. analyze_loop r cfg idx st commits = Inr res"
proof (induction commits arbitrary: st)
  case Nil
  show ?case by simp
next
  case (Cons commit commits)
  obtain histogram st' where "process_commit r cfg idx st commit = Inr (histogram, st')"
    using process_commit_total [OF assms, of cfg idx st commit] by auto
  moreover obtain hs st'' where "analyze_loop r cfg idx st' commits = Inr (hs, st'')"
    using Cons.IH [of st'] by auto
  ultimately show ?case by simp
qed


section \<open>The fallback cohort\<close>

lemma blame_keys_cohort:
  "count_list (blame_keys cfg idx path c) (''cohort'', Str l) = (if cohort_label idx c = l then 1 else 0)"
  by (auto simp: blame_keys_def cohort_label_def Let_def split: option.splits)

lemma hist_get_count_lines_cohort:
  "hist_get (fold (count_lines cfg idx path) groups h) (''cohort'', Str l)
     = hist_get h (''cohort'', Str l)
       + blame_lines (filter (\<lambda>pair. cohort_label idx (fst pair) = l) groups)"
  by (induction groups arbitrary: h)
     (simp_all add: blame_lines_def count_lines_def hist_get_fold_add blame_keys_cohort)

lemma hd_index:
  "commit2cohort (full_index st_cfg hd_repo) = [''A'' \<mapsto> ''2015'', ''R'' \<mapsto> ''2015'']"
  "commit2timestamp (full_index st_cfg hd_repo) = [''A'' \<mapsto> 100]"
  by (simp_all add: full_index_def list_commits_def index_commit_def hd_repo_def st_repo_def
        st_cfg_def st_A_def st_R_def Let_def)

section \<open>The time series\<close>

lemma map_of_setdefault_append:
  "map_of (setdefault_append k v d) k' =
     (if k' = k then Some ((case map_of d k of None \<Rightarrow> [] | Some l \<Rightarrow> l) @ [v])
      else map_of d k')"
  by (induction d) auto

lemma append_curves_apply:
  assumes "distinct cs"
  shows "map_of (append_curves cs histogram c) k =
           (if k \<in> set cs
            then Some ((case map_of c k of None \<Rightarrow> [] | Some l \<Rightarrow> l) @ [hist_get histogram k])
            else map_of c k)"
  using assms unfolding append_curves_def
  by (induction cs arbitrary: c) (auto simp: map_of_setdefault_append)

lemma distinct_count_entries:
  "distinct cs \<Longrightarrow> distinct (count_entries cfg commits cs)"
proof -
  have inner: "distinct (fold (\<lambda>blob cs. List.insert (''filesize'', Num (entry_size blob))
                  (List.insert (''ext'', Str (snd (splitext (entry_path blob)))) cs)) blobs cs)"
    if "distinct cs" for blobs cs
    using that by (induction blobs arbitrary: cs) simp_all
  show "distinct cs \<Longrightarrow> distinct (count_entries cfg commits cs)"
    unfolding count_entries_def
    by (induction commits arbitrary: cs) (simp_all add: inner)
qed

lemma curves_set_index_commit:
  "distinct (curves_set idx) \<Longrightarrow> distinct (curves_set (index_commit cfg commit idx))"
  by (simp add: index_commit_def Let_def)

lemma distinct_list_commits: "distinct (curves_set (list_commits cfg r))"
proof -
  have "distinct (curves_set (fold (index_commit cfg) commits idx))"
    if "distinct (curves_set idx)" for commits idx
    using that by (induction commits arbitrary: idx) (simp_all add: curves_set_index_commit)
  then show ?thesis by (simp add: list_commits_def)
qed

lemma distinct_curves_set: "distinct (curves_set (full_index cfg r))"
  by (simp add: full_index_def Let_def distinct_count_entries distinct_list_commits)

lemma process_commit_fields:
  assumes "process_commit r cfg idx st commit = Inr (histogram, st')"
  shows "curves st' = append_curves (curves_set idx) histogram (curves st)"
    and "commit_history st' = record_survival commit histogram (commit_history st)"
    and "ts st' = ts st @ [committed_date commit]"
    and "last_commit st' = Some commit"
  using assms by (auto simp: process_commit_def Let_def split: sum.splits)

lemma analyze_loop_Cons:
  assumes "analyze_loop r cfg idx st (commit # commits) = Inr (hs, st'')"
  obtains histogram st' hs' where "process_commit r cfg idx st commit = Inr (histogram, st')"
    and "analyze_loop r cfg idx st' commits = Inr (hs', st'')" and "hs = histogram # hs'"
  using assms by (auto split: sum.splits)

lemma analyze_loop_length:
  "analyze_loop r cfg idx st commits = Inr (hs, st') \<Longrightarrow> length hs = length commits"
proof (induction commits arbitrary: st hs)
  case Nil
  then show ?case by simp
next
  case (Cons commit commits)
  from Cons.prems show ?case
    by (rule analyze_loop_Cons) (auto dest: Cons.IH)
qed

lemma analyze_loop_curves:
  assumes "distinct (curves_set idx)"
  shows "analyze_loop r cfg idx st commits = Inr (hs, st') \<Longrightarrow>
         map_of (curves st') k =
           (if k \<in> set (curves_set idx) \<and> commits \<noteq> []
            then Some ((case map_of (curves st) k of None \<Rightarrow> [] | Some l \<Rightarrow> l)
                       @ map (\<lambda>h. hist_get h k) hs)
            else map_of (curves st) k)"
proof (induction commits arbitrary: st hs)
  case Nil
  then show ?case by simp
next
  case (Cons commit commits)
  from Cons.prems obtain histogram st1 hs' where
    p: "process_commit r cfg idx st commit = Inr (histogram, st1)" and
    l: "analyze_loop r cfg idx st1 commits = Inr (hs', st')" and hs: "hs = histogram # hs'"
    by (rule analyze_loop_Cons)
  have c1: "map_of (curves st1) k =
           (if k \<in> set (curves_set idx)
            then Some ((case map_of (curves st) k of None \<Rightarrow> [] | Some l \<Rightarrow> l)
                       @ [hist_get histogram k])
            else map_of (curves st) k)"
    by (simp add: process_commit_fields(1) [OF p] append_curves_apply [OF assms])
  have "hs' = []" if "commits = []"
    using l that by simp
  then show ?case
    using Cons.IH [OF l] c1 by (auto simp: hs)
qed

lemma hist_get_absent: "k \<notin> fst ` set h \<Longrightarrow> hist_get h k = 0"
proof -
  assume "k \<notin> fst ` set h"
  then have "map_of h k = None"
    by (simp add: map_of_eq_None_iff)
  then show ?thesis
    by (simp add: hist_get_def)
qed

text \<open>
  Claim C7. \<^verbatim>\<open>curves_set\<close> is complete before the loop over the checkpoints starts and
  the loop only reads it. After the run every key of it has a series with one count per
  checkpoint, the count of the histogram of that checkpoint (\<^const>\<open>hist_get\<close>, which
  is 0 for a key the histogram does not have); the series are as long as the list of
  checkpoints, and no other key has a series. (Without checkpoints no series is made.)
\<close>

theorem series_aligned:
  assumes "analyze cfg r = Inr (hs, st)" and "key \<in> set (curves_set (full_index cfg r))"
  shows "length hs = length (checkpoints cfg r)
       \<and> map_of (curves st) key
           = (if checkpoints cfg r = [] then None
              else Some (map (\<lambda>histogram. hist_get histogram key) hs))
       \<and> fst ` set (curves st) \<subseteq> set (curves_set (full_index cfg r))"
proof -
  have l: "analyze_loop r cfg (full_index cfg r) init_state (checkpoints cfg r) = Inr (hs, st)"
    using assms(1) by (simp add: analyze_def)
  have c: "map_of (curves st) k =
           (if k \<in> set (curves_set (full_index cfg r)) \<and> checkpoints cfg r \<noteq> []
            then Some (map (\<lambda>h. hist_get h k) hs) else None)" for k
    using analyze_loop_curves [OF distinct_curves_set l, of k] by (simp add: init_state_def)
  have "dom (map_of (curves st)) \<subseteq> set (curves_set (full_index cfg r))"
    by (auto simp: c dom_def split: if_splits)
  then have "fst ` set (curves st) \<subseteq> set (curves_set (full_index cfg r))"
    by (simp add: dom_map_of_conv_image_fst)
  then show ?thesis
    using analyze_loop_length [OF l] c [of key] assms(2) by simp
qed

section \<open>The run after a fault\<close>










section \<open>The survival series\<close>

lemma record_survival_apply:
  assumes "distinct (map fst histogram)"
  shows "map_of (record_survival commit histogram ch) v =
           (if (''sha'', v) \<in> fst ` set histogram
            then Some ((case map_of ch v of None \<Rightarrow> [] | Some l \<Rightarrow> l)
                       @ [(committed_date commit, hist_get histogram (''sha'', v))])
            else map_of ch v)"
proof -
  define upd :: "key \<times> int \<Rightarrow> (val \<times> (int \<times> int) list) list \<Rightarrow> (val \<times> (int \<times> int) list) list"
    where "upd = (\<lambda>(key, count) ch.
             (case key of (key_type, key_item) \<Rightarrow>
                if key_type = ''sha''
                then setdefault_append key_item (committed_date commit, count) ch
                else ch))"
  have upd_same: "map_of (upd ((''sha'', v), n) ch') v
      = Some ((case map_of ch' v of None \<Rightarrow> [] | Some l \<Rightarrow> l) @ [(committed_date commit, n)])"
    for n ch'
    by (simp add: upd_def map_of_setdefault_append)
  have upd_other: "map_of (upd (k, n) ch') v = map_of ch' v" if "k \<noteq> (''sha'', v)" for k n ch'
    using that by (cases k) (auto simp: upd_def map_of_setdefault_append)
  have "map_of (fold upd histogram ch) v =
           (if (''sha'', v) \<in> fst ` set histogram
            then Some ((case map_of ch v of None \<Rightarrow> [] | Some l \<Rightarrow> l)
                       @ [(committed_date commit, hist_get histogram (''sha'', v))])
            else map_of ch v)"
    using assms
  proof (induction histogram arbitrary: ch)
    case Nil
    show ?case by simp
  next
    case (Cons x histogram)
    obtain k n where x: "x = (k, n)" by (cases x) auto
    have d: "distinct (map fst histogram)" and nk: "k \<notin> fst ` set histogram"
      using Cons.prems by (auto simp: x)
    have step: "map_of (fold upd (x # histogram) ch) v =
           (if (''sha'', v) \<in> fst ` set histogram
            then Some ((case map_of (upd x ch) v of None \<Rightarrow> [] | Some l \<Rightarrow> l)
                       @ [(committed_date commit, hist_get histogram (''sha'', v))])
            else map_of (upd x ch) v)"
      using Cons.IH [OF d, of "upd x ch"] by simp
    show ?case
    proof (cases "k = (''sha'', v)")
      case True
      then show ?thesis
        using nk step upd_same [of n ch] by (simp add: x hist_get_def)
    next
      case False
      then show ?thesis
        using step upd_other [OF False, of n ch] by (auto simp: x hist_get_def)
    qed
  qed
  then show ?thesis by (simp add: record_survival_def upd_def)
qed

lemma distinct_hist_merge:
  "distinct (map fst histogram) \<Longrightarrow> distinct (map fst (hist_merge h histogram))"
  unfolding hist_merge_def
  by (induction h arbitrary: histogram) (auto simp: distinct_hist_add)

lemma distinct_merge_blobs:
  "merge_blobs r cfg idx commit changed blobs (histogram, fh, rep) = Inr (histogram', fh', rep')
   \<Longrightarrow> distinct (map fst histogram) \<Longrightarrow> distinct (map fst histogram')"
proof (induction blobs arbitrary: histogram fh rep)
  case Nil
  then show ?case by simp
next
  case (Cons blob blobs)
  then show ?case
    by (auto split: if_splits sum.splits dest!: Cons.IH simp: distinct_hist_merge)
qed

lemma distinct_process_commit:
  assumes "process_commit r cfg idx st commit = Inr (histogram, st')"
  shows "distinct (map fst histogram)"
  using assms distinct_merge_blobs [of r cfg idx commit _ _ "[]"]
  by (auto simp: process_commit_def Let_def split: sum.splits)

lemma analyze_loop_survival:
  "analyze_loop r cfg idx st commits = Inr (hs, st') \<Longrightarrow>
   map_of (commit_history st') v =
     (if survival_entries commits hs v = [] then map_of (commit_history st) v
      else Some ((case map_of (commit_history st) v of None \<Rightarrow> [] | Some l \<Rightarrow> l)
                 @ survival_entries commits hs v))"
proof (induction commits arbitrary: st hs)
  case Nil
  then show ?case by (simp add: survival_entries_def)
next
  case (Cons commit commits)
  from Cons.prems obtain histogram st1 hs' where
    p: "process_commit r cfg idx st commit = Inr (histogram, st1)" and
    l: "analyze_loop r cfg idx st1 commits = Inr (hs', st')" and hs: "hs = histogram # hs'"
    by (rule analyze_loop_Cons)
  have c1: "map_of (commit_history st1) v =
           (if (''sha'', v) \<in> fst ` set histogram
            then Some ((case map_of (commit_history st) v of None \<Rightarrow> [] | Some l \<Rightarrow> l)
                       @ [(committed_date commit, hist_get histogram (''sha'', v))])
            else map_of (commit_history st) v)"
    by (simp add: process_commit_fields(2) [OF p]
          record_survival_apply [OF distinct_process_commit [OF p]])
  show ?case
    using Cons.IH [OF l] c1 by (auto simp: hs survival_entries_def)
qed

text \<open>
  Claim C5, as the code has it. The survival series of a commit holds, in the order of
  the checkpoints, one pair of timestamp and count for every checkpoint whose histogram
  has the key of the commit, with the count of that histogram, and nothing for the
  other checkpoints. The counts are what the blame (or the cache) gives at each
  checkpoint: nothing makes them non-increasing, and a commit without an entry at one
  checkpoint can have one at a later checkpoint.
\<close>

theorem survival_series_entries:
  assumes "analyze cfg r = Inr (hs, st)"
  shows "map_of (commit_history st) key_item =
           (if survival_entries (checkpoints cfg r) hs key_item = [] then None
            else Some (survival_entries (checkpoints cfg r) hs key_item))"
proof -
  have l: "analyze_loop r cfg (full_index cfg r) init_state (checkpoints cfg r) = Inr (hs, st)"
    using assms(1) by (simp add: analyze_def)
  show ?thesis
    using analyze_loop_survival [OF l, of key_item] by (simp add: init_state_def)
qed

section \<open>The cache of file histograms\<close>

lemma kind_sum_hist_merge:
  "kind_sum kind (hist_merge h histogram) = kind_sum kind histogram + kind_sum kind h"
proof -
  have "kind_sum kind (fold (\<lambda>(key, count) H. hist_add key count H) h histogram)
          = kind_sum kind histogram + kind_sum kind h"
  proof (induction h arbitrary: histogram)
    case Nil
    show ?case by (simp add: kind_sum_Nil)
  next
    case (Cons x h)
    obtain k n where x: "x = (k, n)" by (cases x) auto
    have "kind_sum kind (x # h) = (if fst k = kind then n else 0) + kind_sum kind h"
      by (simp add: kind_sum_def x)
    then show ?case
      by (simp add: Cons.IH x kind_sum_add)
  qed
  then show ?thesis by (simp add: hist_merge_def)
qed

lemma get_file_histogram_kind_sum:
  assumes "get_file_histogram r cfg idx commit path = Inr (h, tb)"
      and "kind \<in> {''cohort'', ''ext'', ''author'', ''filesize''}"
  shows "kind_sum kind h = attributed_lines r commit path"
proof (cases "blame r commit path")
  case (Inl e)
  then show ?thesis
    using assms(1)
    by (cases e) (auto simp: get_file_histogram_def attributed_lines_def kind_sum_Nil)
next
  case (Inr groups)
  then have "h = fold (count_lines cfg idx path) groups []"
    using assms(1) by (simp add: get_file_histogram_def)
  then show ?thesis
    by (simp add: kind_sum_fold_count_lines [OF assms(2)] kind_sum_Nil attributed_lines_def Inr)
qed

text \<open>
  The loop over the blobs keeps a property \<open>Q\<close> of the cached histograms that every
  fresh histogram has, when the entries it does not recompute have it.
\<close>

lemma merge_blobs_inv:
  assumes fresh: "\<And>p h tb. get_file_histogram r cfg idx commit p = Inr (h, tb) \<Longrightarrow> Q p h"
      and lines: "\<And>p h. Q p h \<Longrightarrow> kind_sum kind h = L p"
  shows "merge_blobs r cfg idx commit changed blobs (histogram, fh, rep) = Inr (histogram', fh', rep')
   \<Longrightarrow> \<forall>p h. p \<in> entry_path ` set blobs \<and> p \<notin> changed \<and> fh p = Some h \<longrightarrow> Q p h
   \<Longrightarrow> (\<forall>p \<in> entry_path ` set blobs. \<exists>h. fh' p = Some h \<and> Q p h)
     \<and> (\<forall>p h. fh p = Some h \<and> Q p h \<longrightarrow> (\<exists>h'. fh' p = Some h' \<and> Q p h'))
     \<and> kind_sum kind histogram'
         = kind_sum kind histogram + sum_list (map (\<lambda>blob. L (entry_path blob)) blobs)"
proof (induction blobs arbitrary: histogram fh rep)
  case Nil
  then show ?case by simp
next
  case (Cons blob blobs)
  let ?p = "entry_path blob"
  show ?case
  proof (cases "?p \<in> changed \<or> fh ?p = None")
    case True
    then obtain h tb where
      g: "get_file_histogram r cfg idx commit ?p = Inr (h, tb)" and
      m: "merge_blobs r cfg idx commit changed blobs
            (hist_merge h histogram, fh(?p \<mapsto> h), rep @ tb) = Inr (histogram', fh', rep')"
      using Cons.prems(1) by (auto split: sum.splits)
    have q: "Q ?p h" using g by (rule fresh)
    have pre: "\<forall>q h'. q \<in> entry_path ` set blobs \<and> q \<notin> changed \<and> (fh(?p \<mapsto> h)) q = Some h'
                 \<longrightarrow> Q q h'"
      using Cons.prems(2) q by auto
    have ih: "(\<forall>p \<in> entry_path ` set blobs. \<exists>h. fh' p = Some h \<and> Q p h)
     \<and> (\<forall>q h'. (fh(?p \<mapsto> h)) q = Some h' \<and> Q q h' \<longrightarrow> (\<exists>h''. fh' q = Some h'' \<and> Q q h''))
     \<and> kind_sum kind histogram'
         = kind_sum kind (hist_merge h histogram)
           + sum_list (map (\<lambda>blob. L (entry_path blob)) blobs)"
      using Cons.IH [OF m pre] by blast
    have here: "\<exists>h'. fh' ?p = Some h' \<and> Q ?p h'"
      using ih q by simp
    have keep: "\<exists>h''. fh' q = Some h'' \<and> Q q h''" if "fh q = Some h'" "Q q h'" for q h'
    proof (cases "q = ?p")
      case True
      then show ?thesis using here by simp
    next
      case False
      then show ?thesis using ih that by simp
    qed
    have "kind_sum kind h = L ?p"
      using q by (rule lines)
    then show ?thesis
      using ih here keep by (auto simp: kind_sum_hist_merge)
  next
    case False
    then obtain h where h: "fh ?p = Some h" and nc: "?p \<notin> changed"
      by auto
    have m: "merge_blobs r cfg idx commit changed blobs
            (hist_merge h histogram, fh, rep) = Inr (histogram', fh', rep')"
      using Cons.prems(1) False h by simp
    have q: "Q ?p h"
      using Cons.prems(2) h nc by simp
    have pre: "\<forall>q h'. q \<in> entry_path ` set blobs \<and> q \<notin> changed \<and> fh q = Some h' \<longrightarrow> Q q h'"
      using Cons.prems(2) by auto
    have ih: "(\<forall>p \<in> entry_path ` set blobs. \<exists>h. fh' p = Some h \<and> Q p h)
     \<and> (\<forall>q h'. fh q = Some h' \<and> Q q h' \<longrightarrow> (\<exists>h''. fh' q = Some h'' \<and> Q q h''))
     \<and> kind_sum kind histogram'
         = kind_sum kind (hist_merge h histogram)
           + sum_list (map (\<lambda>blob. L (entry_path blob)) blobs)"
      using Cons.IH [OF m pre] by blast
    have here: "\<exists>h'. fh' ?p = Some h' \<and> Q ?p h'"
      using ih q h by blast
    have "kind_sum kind h = L ?p"
      using q by (rule lines)
    then show ?thesis
      using ih here by (auto simp: kind_sum_hist_merge)
  qed
qed

lemma process_commit_inv:
  assumes fresh: "\<forall>p h tb. get_file_histogram r cfg idx commit p = Inr (h, tb) \<longrightarrow> Q p h"
      and lines: "\<forall>p h. Q p h \<longrightarrow> kind_sum kind h = attributed_lines r commit p"
      and step: "process_commit r cfg idx st commit = Inr (histogram, st')"
      and pre: "\<forall>p h. p \<in> set (paths_at cfg commit)
                  \<and> p \<notin> changed_files (diff r commit (last_commit st))
                  \<and> file_histograms st p = Some h \<longrightarrow> Q p h"
  shows "\<forall>p \<in> set (paths_at cfg commit). \<exists>h. file_histograms st' p = Some h \<and> Q p h"
    and "kind_sum kind histogram = attributed_total r cfg commit"
proof -
  obtain rep' where
    m: "merge_blobs r cfg idx commit (changed_files (diff r commit (last_commit st)))
          (get_blob_entries cfg commit) ([], file_histograms st, reported st)
        = Inr (histogram, file_histograms st', rep')"
    using step by (auto simp: process_commit_def Let_def split: sum.splits)
  have pre': "\<forall>p h. p \<in> entry_path ` set (get_blob_entries cfg commit)
                \<and> p \<notin> changed_files (diff r commit (last_commit st))
                \<and> file_histograms st p = Some h \<longrightarrow> Q p h"
    using pre by (simp add: paths_at_def)
  have f: "\<And>p h tb. get_file_histogram r cfg idx commit p = Inr (h, tb) \<Longrightarrow> Q p h"
    using fresh by blast
  have n: "\<And>p h. Q p h \<Longrightarrow> kind_sum kind h = attributed_lines r commit p"
    using lines by blast
  note inv = merge_blobs_inv [of r cfg idx commit Q kind "attributed_lines r commit",
      OF f n m pre']
  show "\<forall>p \<in> set (paths_at cfg commit). \<exists>h. file_histograms st' p = Some h \<and> Q p h"
    using inv by (simp add: paths_at_def)
  show "kind_sum kind histogram = attributed_total r cfg commit"
    using inv by (simp add: attributed_total_def paths_at_def kind_sum_Nil comp_def)
qed

lemma analyze_loop_inv:
  assumes fresh: "\<forall>c p h tb. get_file_histogram r cfg idx c p = Inr (h, tb) \<longrightarrow> Q c p h"
      and lines: "\<forall>c p h. Q c p h \<longrightarrow> kind_sum kind h = attributed_lines r c p"
  shows "analyze_loop r cfg idx st (c # cs) = Inr (hs, st')
   \<Longrightarrow> \<forall>p h. p \<in> set (paths_at cfg c) \<and> p \<notin> changed_files (diff r c (last_commit st))
             \<and> file_histograms st p = Some h \<longrightarrow> Q c p h
   \<Longrightarrow> successively
         (\<lambda>prev cur. \<forall>p \<in> set (paths_at cfg cur).
              p \<in> changed_files (diff r cur (Some prev))
              \<or> (p \<in> set (paths_at cfg prev) \<and> (\<forall>h. Q prev p h \<longrightarrow> Q cur p h)))
         (c # cs)
   \<Longrightarrow> (\<forall>p \<in> set (paths_at cfg (last (c # cs))).
          \<exists>h. file_histograms st' p = Some h \<and> Q (last (c # cs)) p h)
     \<and> list_all2 (\<lambda>histogram commit. kind_sum kind histogram = attributed_total r cfg commit)
          hs (c # cs)"
proof (induction cs arbitrary: c st hs)
  case Nil
  from Nil.prems(1) obtain histogram where
    p: "process_commit r cfg idx st c = Inr (histogram, st')" and hs: "hs = [histogram]"
    by (auto split: sum.splits)
  have f: "\<forall>p h tb. get_file_histogram r cfg idx c p = Inr (h, tb) \<longrightarrow> Q c p h"
    using fresh by blast
  have n: "\<forall>p h. Q c p h \<longrightarrow> kind_sum kind h = attributed_lines r c p"
    using lines by blast
  show ?case
    using process_commit_inv [of r cfg idx c "Q c" kind st histogram st', OF f n p Nil.prems(2)]
    by (simp add: hs)
next
  case (Cons c' cs)
  from Cons.prems(1) obtain histogram st1 hs' where
    p: "process_commit r cfg idx st c = Inr (histogram, st1)" and
    l: "analyze_loop r cfg idx st1 (c' # cs) = Inr (hs', st')" and hs: "hs = histogram # hs'"
    by (rule analyze_loop_Cons)
  have f: "\<forall>p h tb. get_file_histogram r cfg idx c p = Inr (h, tb) \<longrightarrow> Q c p h"
    using fresh by blast
  have n: "\<forall>p h. Q c p h \<longrightarrow> kind_sum kind h = attributed_lines r c p"
    using lines by blast
  note inv1 = process_commit_inv [of r cfg idx c "Q c" kind st histogram st1,
      OF f n p Cons.prems(2)]
  have stable: "\<forall>p \<in> set (paths_at cfg c').
              p \<in> changed_files (diff r c' (Some c))
              \<or> (p \<in> set (paths_at cfg c) \<and> (\<forall>h. Q c p h \<longrightarrow> Q c' p h))"
    and rest: "successively
         (\<lambda>prev cur. \<forall>p \<in> set (paths_at cfg cur).
              p \<in> changed_files (diff r cur (Some prev))
              \<or> (p \<in> set (paths_at cfg prev) \<and> (\<forall>h. Q prev p h \<longrightarrow> Q cur p h)))
         (c' # cs)"
    using Cons.prems(3) by simp_all
  have pre: "\<forall>q h. q \<in> set (paths_at cfg c')
               \<and> q \<notin> changed_files (diff r c' (last_commit st1))
               \<and> file_histograms st1 q = Some h \<longrightarrow> Q c' q h"
  proof (intro allI impI)
    fix q h
    assume a: "q \<in> set (paths_at cfg c') \<and> q \<notin> changed_files (diff r c' (last_commit st1))
               \<and> file_histograms st1 q = Some h"
    then have "q \<notin> changed_files (diff r c' (Some c))"
      by (simp add: process_commit_fields(4) [OF p])
    then have "q \<in> set (paths_at cfg c)" and t: "\<forall>h. Q c q h \<longrightarrow> Q c' q h"
      using stable a by auto
    then have "Q c q h"
      using inv1(1) a by auto
    then show "Q c' q h"
      using t by simp
  qed
  show ?case
    using Cons.IH [OF l pre rest] inv1(2) by (simp add: hs)
qed

lemma successively_take: "successively P xs \<Longrightarrow> successively P (take n xs)"
  using successively_append_iff [of P "take n xs" "drop n xs"] by simp

text \<open>
  Claim C4, as the code has it. Assume that between every two consecutive checkpoints a
  file of the later one that the diff does not list was present at the earlier one and
  has the same blame at both. Then after every checkpoint the cache holds, for every
  file present at that checkpoint (in the changed-file set or not), the histogram that
  \<^verbatim>\<open>get_file_histogram\<close> computes at that checkpoint. Without the assumption the cached
  histogram can differ from a fresh one.
\<close>

theorem cached_histogram_fresh:
  assumes "successively (blame_stable r cfg) (checkpoints cfg r)"
      and "i < length (checkpoints cfg r)"
      and "analyze_loop r cfg (full_index cfg r) init_state (take (Suc i) (checkpoints cfg r))
             = Inr (hs, st)"
      and "path \<in> set (paths_at cfg (checkpoints cfg r ! i))"
  shows "\<exists>h tb. file_histograms st path = Some h
           \<and> get_file_histogram r cfg (full_index cfg r) (checkpoints cfg r ! i) path = Inr (h, tb)"
proof -
  let ?cps = "checkpoints cfg r" and ?idx = "full_index cfg r"
  let ?Q = "\<lambda>c p h. \<exists>tb. get_file_histogram r cfg ?idx c p = Inr (h, tb)"
  obtain c cs where t: "take (Suc i) ?cps = c # cs"
    using assms(2) by (cases ?cps) auto
  have lst: "last (c # cs) = ?cps ! i"
    using assms(2) t [symmetric] by (simp add: take_Suc_conv_app_nth)
  have "successively (blame_stable r cfg) (c # cs)"
    using successively_take [OF assms(1), of "Suc i"] by (simp only: t)
  then have s: "successively
         (\<lambda>prev cur. \<forall>p \<in> set (paths_at cfg cur).
              p \<in> changed_files (diff r cur (Some prev))
              \<or> (p \<in> set (paths_at cfg prev) \<and> (\<forall>h. ?Q prev p h \<longrightarrow> ?Q cur p h)))
         (c # cs)"
    by (rule successively_mono)
       (auto simp: blame_stable_def list_all_iff get_file_histogram_def)
  have l: "analyze_loop r cfg ?idx init_state (c # cs) = Inr (hs, st)"
    using assms(3) by (simp only: t)
  have pre: "\<forall>p h. p \<in> set (paths_at cfg c)
               \<and> p \<notin> changed_files (diff r c (last_commit init_state))
               \<and> file_histograms init_state p = Some h \<longrightarrow> ?Q c p h"
    by (simp add: init_state_def)
  have k: "''cohort'' \<in> {''cohort'', ''ext'', ''author'', ''filesize''}"
    by simp
  have f: "\<forall>c p h tb. get_file_histogram r cfg ?idx c p = Inr (h, tb) \<longrightarrow> ?Q c p h"
    by blast
  have n: "\<forall>c p h. ?Q c p h \<longrightarrow> kind_sum ''cohort'' h = attributed_lines r c p"
    using get_file_histogram_kind_sum [OF _ k] by blast
  have "\<forall>p \<in> set (paths_at cfg (last (c # cs))).
          \<exists>h. file_histograms st p = Some h \<and> ?Q (last (c # cs)) p h"
    using analyze_loop_inv [of r cfg ?idx ?Q "''cohort''" init_state c cs hs st, OF f n l pre s]
    by blast
  then have "\<forall>p \<in> set (paths_at cfg (?cps ! i)).
          \<exists>h. file_histograms st p = Some h \<and> ?Q (?cps ! i) p h"
    by (simp only: lst)
  then show ?thesis
    using assms(4) by blast
qed

section \<open>The totals of a checkpoint\<close>

lemma get_file_histogram_balanced:
  assumes "get_file_histogram r cfg idx commit path = Inr (h, tb)"
  shows "balanced h"
  using get_file_histogram_kind_sum [OF assms] by (simp add: balanced_def)

lemma balanced_hist_merge: "balanced h \<Longrightarrow> balanced histogram \<Longrightarrow> balanced (hist_merge h histogram)"
  by (simp add: balanced_def kind_sum_hist_merge)

lemma merge_blobs_balanced:
  "merge_blobs r cfg idx commit changed blobs (histogram, fh, rep) = Inr (histogram', fh', rep')
   \<Longrightarrow> \<forall>p h. fh p = Some h \<longrightarrow> balanced h \<Longrightarrow> balanced histogram
   \<Longrightarrow> balanced histogram' \<and> (\<forall>p h. fh' p = Some h \<longrightarrow> balanced h)"
proof (induction blobs arbitrary: histogram fh rep)
  case Nil
  then show ?case by auto
next
  case (Cons blob blobs)
  let ?p = "entry_path blob"
  show ?case
  proof (cases "?p \<in> changed \<or> fh ?p = None")
    case True
    then obtain h tb where
      g: "get_file_histogram r cfg idx commit ?p = Inr (h, tb)" and
      m: "merge_blobs r cfg idx commit changed blobs
            (hist_merge h histogram, fh(?p \<mapsto> h), rep @ tb) = Inr (histogram', fh', rep')"
      using Cons.prems(1) by (auto split: sum.splits)
    have bh: "balanced h" using g by (rule get_file_histogram_balanced)
    have "\<forall>q h'. (fh(?p \<mapsto> h)) q = Some h' \<longrightarrow> balanced h'"
      using bh Cons.prems(2) by auto
    then show ?thesis
      using Cons.IH [OF m] balanced_hist_merge [OF bh Cons.prems(3)] by blast
  next
    case False
    then obtain h where h: "fh ?p = Some h" by auto
    have m: "merge_blobs r cfg idx commit changed blobs
            (hist_merge h histogram, fh, rep) = Inr (histogram', fh', rep')"
      using Cons.prems(1) False h by simp
    have bh: "balanced h" using Cons.prems(2) h by blast
    show ?thesis
      using Cons.IH [OF m Cons.prems(2)] balanced_hist_merge [OF bh Cons.prems(3)]
      by blast
  qed
qed

lemma analyze_loop_balanced:
  "analyze_loop r cfg idx st commits = Inr (hs, st')
   \<Longrightarrow> \<forall>p h. file_histograms st p = Some h \<longrightarrow> balanced h
   \<Longrightarrow> list_all balanced hs"
proof (induction commits arbitrary: st hs)
  case Nil
  then show ?case by simp
next
  case (Cons commit commits)
  from Cons.prems(1) obtain histogram st1 hs' where
    p: "process_commit r cfg idx st commit = Inr (histogram, st1)" and
    l: "analyze_loop r cfg idx st1 commits = Inr (hs', st')" and hs: "hs = histogram # hs'"
    by (rule analyze_loop_Cons)
  obtain rep' where
    m: "merge_blobs r cfg idx commit (changed_files (diff r commit (last_commit st)))
          (get_blob_entries cfg commit) ([], file_histograms st, reported st)
        = Inr (histogram, file_histograms st1, rep')"
    using p by (auto simp: process_commit_def Let_def split: sum.splits)
  have b0: "balanced []" by (simp add: balanced_def kind_sum_Nil)
  have b: "balanced histogram" "\<forall>p h. file_histograms st1 p = Some h \<longrightarrow> balanced h"
    using merge_blobs_balanced [OF m Cons.prems(2) b0] by blast+
  show ?case
    using Cons.IH [OF l b(2)] b(1) by (simp add: hs)
qed







section \<open>The fallback cohort at a checkpoint\<close>

text \<open>
  Claim C9, as the code has it. At a checkpoint, when the blame of a file succeeds,
  every line of a commit whose identifier is not in \<^verbatim>\<open>commit2cohort\<close> is counted
  under the cohort key with the literal label \<^verbatim>\<open>MISSING\<close> (the label is not
  \<^verbatim>\<open>unresolved\<close>), no line is dropped, and the cohort, extension and author counts of
  the histogram of the file all sum to the number of blamed lines; the three sums are
  equal in the histogram of the checkpoint as well.
\<close>

theorem missing_cohort_counted:
  assumes "analyze cfg r = Inr (hs, st)" and "i < length (checkpoints cfg r)"
      and "blame r (checkpoints cfg r ! i) path = Inr groups"
  shows "(\<exists>h. get_file_histogram r cfg (full_index cfg r) (checkpoints cfg r ! i) path = Inr (h, [])
           \<and> hist_get h (''cohort'', Str ''MISSING'')
               = blame_lines (filter (\<lambda>pair. cohort_label (full_index cfg r) (fst pair)
                                              = ''MISSING'') groups)
           \<and> kind_sum ''cohort'' h = blame_lines groups
           \<and> kind_sum ''ext'' h = blame_lines groups
           \<and> kind_sum ''author'' h = blame_lines groups)
       \<and> kind_sum ''cohort'' (hs ! i) = kind_sum ''ext'' (hs ! i)
       \<and> kind_sum ''ext'' (hs ! i) = kind_sum ''author'' (hs ! i)"
proof -
  let ?idx = "full_index cfg r" and ?c = "checkpoints cfg r ! i"
  let ?h = "fold (count_lines cfg ?idx path) groups []"
  have "get_file_histogram r cfg ?idx ?c path = Inr (?h, [])"
    using assms(3) by (simp add: get_file_histogram_def)
  moreover have "hist_get ?h (''cohort'', Str ''MISSING'')
      = blame_lines (filter (\<lambda>pair. cohort_label ?idx (fst pair) = ''MISSING'') groups)"
    by (simp add: hist_get_count_lines_cohort hist_get_Nil)
  moreover have "kind_sum ''cohort'' ?h = blame_lines groups"
    "kind_sum ''ext'' ?h = blame_lines groups" "kind_sum ''author'' ?h = blame_lines groups"
    by (simp_all add: kind_sum_fold_count_lines kind_sum_Nil)
  moreover have "balanced (hs ! i)"
  proof -
    have l: "analyze_loop r cfg ?idx init_state (checkpoints cfg r) = Inr (hs, st)"
      using assms(1) by (simp add: analyze_def)
    have "list_all balanced hs"
      using analyze_loop_balanced [OF l] by (simp add: init_state_def)
    then show ?thesis
      using assms(2) analyze_loop_length [OF l] by (simp add: list_all_length)
  qed
  ultimately show ?thesis
    by (simp add: balanced_def)
qed

text \<open>
  Against claim C9 as stated: with the head at \<^verbatim>\<open>B\<close> and the branch at \<^verbatim>\<open>A\<close>, the
  line of \<^verbatim>\<open>B\<close> in \<^verbatim>\<open>f.py\<close> is counted under \<^verbatim>\<open>('cohort', 'MISSING')\<close>, and
  nothing under \<^verbatim>\<open>('cohort', 'unresolved')\<close>.
\<close>

theorem missing_label_counterexample:
  "commit2cohort (full_index st_cfg hd_repo) (hexsha st_B) = None
   \<and> blame hd_repo st_B ''f.py'' = Inr [(st_R, [''l1'']), (st_A, [''l2'']), (st_B, [''l3''])]
   \<and> get_file_histogram hd_repo st_cfg (full_index st_cfg hd_repo) st_B ''f.py''
       = Inr ([((''cohort'', Str ''2015''), 2), ((''ext'', Str ''.py''), 3),
               ((''author'', Str ''ann''), 2), ((''filesize'', Num 3), 1),
               ((''author'', Str ''bob''), 1), ((''filesize'', Num 6), 1),
               ((''sha'', Str ''A''), 1), ((''cohort'', Str ''MISSING''), 1),
               ((''filesize'', Num 9), 1)], [])
   \<and> hist_get [((''cohort'', Str ''2015''), 2), ((''ext'', Str ''.py''), 3),
               ((''author'', Str ''ann''), 2), ((''filesize'', Num 3), 1),
               ((''author'', Str ''bob''), 1), ((''filesize'', Num 6), 1),
               ((''sha'', Str ''A''), 1), ((''cohort'', Str ''MISSING''), 1),
               ((''filesize'', Num 9), 1)] (''cohort'', Str ''unresolved'') = 0"
  by code_simp

lemma hd_checkpoints: "checkpoints st_cfg hd_repo = [st_A, st_B]"
  by code_simp

lemma hd_blame: "blame hd_repo = st_blame"
  by (simp add: hd_repo_def st_repo_def)

theorem missing_cohort_counted_witness:
  "\<exists>hs st. analyze st_cfg hd_repo = Inr (hs, st)
     \<and> 1 < length (checkpoints st_cfg hd_repo)
     \<and> blame hd_repo (checkpoints st_cfg hd_repo ! 1) ''f.py''
         = Inr [(st_R, [''l1'']), (st_A, [''l2'']), (st_B, [''l3''])]
     \<and> (\<exists>h. get_file_histogram hd_repo st_cfg (full_index st_cfg hd_repo)
                (checkpoints st_cfg hd_repo ! 1) ''f.py'' = Inr (h, [])
           \<and> hist_get h (''cohort'', Str ''MISSING'') = 1
           \<and> kind_sum ''cohort'' h = 3 \<and> kind_sum ''ext'' h = 3 \<and> kind_sum ''author'' h = 3)
     \<and> kind_sum ''cohort'' (hs ! 1) = kind_sum ''ext'' (hs ! 1)
     \<and> kind_sum ''ext'' (hs ! 1) = kind_sum ''author'' (hs ! 1)"
proof -
  have "\<forall>c p. blame hd_repo c p \<noteq> Inl KeyboardInterrupt"
    by (simp add: hd_blame st_blame_def)
  then obtain hs st where a: "analyze st_cfg hd_repo = Inr (hs, st)"
    unfolding analyze_def using analyze_loop_total by (metis surj_pair)
  have len: "1 < length (checkpoints st_cfg hd_repo)"
    by (simp add: hd_checkpoints)
  have b: "blame hd_repo (checkpoints st_cfg hd_repo ! 1) ''f.py''
             = Inr [(st_R, [''l1'']), (st_A, [''l2'']), (st_B, [''l3''])]"
    by (simp add: hd_checkpoints hd_blame st_blame_def st_B_def)
  show ?thesis
    using missing_cohort_counted [OF a len b] a len b
    by (simp add: blame_lines_def cohort_label_def hd_index st_A_def st_B_def st_R_def)
qed

text \<open>
  The key \<^verbatim>\<open>('cohort', 'MISSING')\<close> is not in \<^verbatim>\<open>curves_set\<close>, so the count stays in
  the histograms: in the same run the cohort series sum to 4 at the second checkpoint
  and the extension series to 5.
\<close>

lemma missing_cohort_series:
  "series_totals st_cfg hd_repo ''cohort'' = [4, 4]
   \<and> series_totals st_cfg hd_repo ''ext'' = [4, 5]"
  by code_simp

section \<open>Runs of the examples\<close>

lemma st_histograms:
  "map_sum id fst (analyze st_cfg st_repo) =
     Inr [[((''cohort'', Str ''2015''), 4), ((''ext'', Str ''.py''), 4),
           ((''author'', Str ''ann''), 3), ((''filesize'', Num 3), 1),
           ((''author'', Str ''bob''), 1), ((''filesize'', Num 6), 1),
           ((''sha'', Str ''A''), 1), ((''filesize'', Num 0), 2)],
          [((''cohort'', Str ''2015''), 4), ((''ext'', Str ''.py''), 5),
           ((''author'', Str ''ann''), 4), ((''filesize'', Num 3), 1),
           ((''author'', Str ''bob''), 1), ((''filesize'', Num 6), 1),
           ((''sha'', Str ''A''), 1), ((''cohort'', Str ''2016''), 1),
           ((''filesize'', Num 9), 1), ((''sha'', Str ''B''), 1),
           ((''filesize'', Num 0), 2)]]"
  by code_simp

lemma st_analyze:
  obtains st where
    "analyze st_cfg st_repo =
       Inr ([[((''cohort'', Str ''2015''), 4), ((''ext'', Str ''.py''), 4),
              ((''author'', Str ''ann''), 3), ((''filesize'', Num 3), 1),
              ((''author'', Str ''bob''), 1), ((''filesize'', Num 6), 1),
              ((''sha'', Str ''A''), 1), ((''filesize'', Num 0), 2)],
             [((''cohort'', Str ''2015''), 4), ((''ext'', Str ''.py''), 5),
              ((''author'', Str ''ann''), 4), ((''filesize'', Num 3), 1),
              ((''author'', Str ''bob''), 1), ((''filesize'', Num 6), 1),
              ((''sha'', Str ''A''), 1), ((''cohort'', Str ''2016''), 1),
              ((''filesize'', Num 9), 1), ((''sha'', Str ''B''), 1),
              ((''filesize'', Num 0), 2)]], st)"
  using st_histograms by (cases "analyze st_cfg st_repo") auto

lemma st_stable: "successively (blame_stable st_repo st_cfg) (checkpoints st_cfg st_repo)"
  by code_simp

lemma st_author_key: "(''author'', Str ''ann'') \<in> set (curves_set (full_index st_cfg st_repo))"
  by code_simp

theorem series_aligned_witness:
  "\<exists>hs st. analyze st_cfg st_repo = Inr (hs, st)
     \<and> (''author'', Str ''ann'') \<in> set (curves_set (full_index st_cfg st_repo))
     \<and> length hs = 2
     \<and> map_of (curves st) (''author'', Str ''ann'') = Some [3, 4]"
proof -
  obtain st where a: "analyze st_cfg st_repo =
       Inr ([[((''cohort'', Str ''2015''), 4), ((''ext'', Str ''.py''), 4),
              ((''author'', Str ''ann''), 3), ((''filesize'', Num 3), 1),
              ((''author'', Str ''bob''), 1), ((''filesize'', Num 6), 1),
              ((''sha'', Str ''A''), 1), ((''filesize'', Num 0), 2)],
             [((''cohort'', Str ''2015''), 4), ((''ext'', Str ''.py''), 5),
              ((''author'', Str ''ann''), 4), ((''filesize'', Num 3), 1),
              ((''author'', Str ''bob''), 1), ((''filesize'', Num 6), 1),
              ((''sha'', Str ''A''), 1), ((''cohort'', Str ''2016''), 1),
              ((''filesize'', Num 9), 1), ((''sha'', Str ''B''), 1),
              ((''filesize'', Num 0), 2)]], st)"
    by (rule st_analyze)
  show ?thesis
    using series_aligned [OF a st_author_key] a st_author_key
    by (simp add: st_checkpoints hist_get_def)
qed

theorem survival_series_entries_witness:
  "\<exists>hs st. analyze st_cfg st_repo = Inr (hs, st)
     \<and> map_of (commit_history st) (Str ''A'') = Some [(100, 1), (200, 1)]
     \<and> map_of (commit_history st) (Str ''R'') = None"
proof -
  obtain st where a: "analyze st_cfg st_repo =
       Inr ([[((''cohort'', Str ''2015''), 4), ((''ext'', Str ''.py''), 4),
              ((''author'', Str ''ann''), 3), ((''filesize'', Num 3), 1),
              ((''author'', Str ''bob''), 1), ((''filesize'', Num 6), 1),
              ((''sha'', Str ''A''), 1), ((''filesize'', Num 0), 2)],
             [((''cohort'', Str ''2015''), 4), ((''ext'', Str ''.py''), 5),
              ((''author'', Str ''ann''), 4), ((''filesize'', Num 3), 1),
              ((''author'', Str ''bob''), 1), ((''filesize'', Num 6), 1),
              ((''sha'', Str ''A''), 1), ((''cohort'', Str ''2016''), 1),
              ((''filesize'', Num 9), 1), ((''sha'', Str ''B''), 1),
              ((''filesize'', Num 0), 2)]], st)"
    by (rule st_analyze)
  show ?thesis
    using survival_series_entries [OF a, of "Str ''A''"] survival_series_entries [OF a, of "Str ''R''"] a
    by (simp add: st_checkpoints survival_entries_def hist_get_def st_A_def st_B_def)
qed












lemma st_prefix: "take (Suc 1) (checkpoints st_cfg st_repo) = checkpoints st_cfg st_repo"
  by (simp add: st_checkpoints)

lemma st_path: "''src/g.py'' \<in> set (paths_at st_cfg (checkpoints st_cfg st_repo ! 1))"
  by code_simp

lemma st_unchanged:
  "''src/g.py'' \<notin> changed_files (diff st_repo (checkpoints st_cfg st_repo ! 1)
                                   (Some (checkpoints st_cfg st_repo ! 0)))"
  by code_simp

theorem cached_histogram_fresh_witness:
  "\<exists>hs st. successively (blame_stable st_repo st_cfg) (checkpoints st_cfg st_repo)
     \<and> 1 < length (checkpoints st_cfg st_repo)
     \<and> analyze_loop st_repo st_cfg (full_index st_cfg st_repo) init_state
          (take (Suc 1) (checkpoints st_cfg st_repo)) = Inr (hs, st)
     \<and> ''src/g.py'' \<in> set (paths_at st_cfg (checkpoints st_cfg st_repo ! 1))
     \<and> ''src/g.py'' \<notin> changed_files (diff st_repo (checkpoints st_cfg st_repo ! 1)
                                         (Some (checkpoints st_cfg st_repo ! 0)))
     \<and> (\<exists>h tb. file_histograms st ''src/g.py'' = Some h
            \<and> get_file_histogram st_repo st_cfg (full_index st_cfg st_repo)
                 (checkpoints st_cfg st_repo ! 1) ''src/g.py'' = Inr (h, tb))"
proof -
  obtain hs st where a: "analyze st_cfg st_repo = Inr (hs, st)"
    using st_analyze by blast
  have l: "analyze_loop st_repo st_cfg (full_index st_cfg st_repo) init_state
          (take (Suc 1) (checkpoints st_cfg st_repo)) = Inr (hs, st)"
    using a by (simp only: st_prefix analyze_def)
  have len: "1 < length (checkpoints st_cfg st_repo)"
    by (simp add: st_checkpoints)
  show ?thesis
    using cached_histogram_fresh [OF st_stable len l st_path] st_stable len l st_path st_unchanged
    by blast
qed

text \<open>
  Against claim C4 as stated: in the history with the revert, \<^verbatim>\<open>f.py\<close> is present at
  the checkpoint \<^verbatim>\<open>Y\<close> and not in the changed-file set, and the cached histogram
  (computed at \<^verbatim>\<open>P\<close>) is not the one a fresh blame at \<^verbatim>\<open>Y\<close> gives.
\<close>

theorem cached_histogram_stale_counterexample:
  "checkpoints rv_cfg rv_repo = [rv_P, rv_Y]
   \<and> ''f.py'' \<in> set (paths_at rv_cfg rv_Y)
   \<and> ''f.py'' \<notin> changed_files (diff rv_repo rv_Y (Some rv_P))
   \<and> cached_histogram rv_cfg rv_repo ''f.py''
       = Some [((''cohort'', Str ''2015''), 2), ((''ext'', Str ''.py''), 2),
               ((''author'', Str ''ann''), 1), ((''filesize'', Num 2), 1),
               ((''author'', Str ''bob''), 1), ((''filesize'', Num 4), 1),
               ((''sha'', Str ''P''), 1)]
   \<and> get_file_histogram rv_repo rv_cfg (full_index rv_cfg rv_repo) rv_Y ''f.py''
       = Inr ([((''cohort'', Str ''2015''), 1), ((''ext'', Str ''.py''), 2),
               ((''author'', Str ''ann''), 1), ((''filesize'', Num 2), 1),
               ((''cohort'', Str ''2016''), 1), ((''author'', Str ''cat''), 1),
               ((''filesize'', Num 4), 1), ((''sha'', Str ''Y''), 1)], [])"
  by code_simp

text \<open>
  Against claim C5 as stated: in the history with the merge, the counts recorded for
  \<^verbatim>\<open>X\<close> are 2, 1 and 2, the last one after the checkpoint \<^verbatim>\<open>V\<close> at which
  \<^verbatim>\<open>X\<close> has no line and no entry.
\<close>

theorem survival_increases_counterexample:
  "checkpoints st_cfg mg_repo = [mg_X, mg_W, mg_V, mg_M]
   \<and> map committed_date [mg_X, mg_W, mg_V, mg_M] = [100, 200, 250, 300]
   \<and> survival_document st_cfg mg_repo
       = [(Str ''X'', [(100, 2), (200, 1), (300, 2)]), (Str ''S'', [(300, 1)])]"
  by code_simp

text \<open>
  Against claim C1 as stated: with timestamps 100, 200, 300 the scenario has 2
  checkpoints, cohort totals 2 and 3, and 2 commits in the survival document, one of
  them with two pairs.
\<close>

theorem three_commits_counterexample:
  "checkpoints (lin_cfg (strftime st_cfg)) (lin_repo 100 200 300) = [lin_c2 100 200, lin_c3 100 200 300]
   \<and> series_totals (lin_cfg (strftime st_cfg)) (lin_repo 100 200 300) ''cohort'' = [2, 3]
   \<and> survival_document (lin_cfg (strftime st_cfg)) (lin_repo 100 200 300)
       = [(Str ''c2'', [(200, 1), (300, 1)]), (Str ''c3'', [(300, 1)])]"
  by code_simp

section \<open>The scenario of three commits\<close>

lemma lin_checkpoints:
  "t2 < t3 \<Longrightarrow> checkpoints (lin_cfg f) (lin_repo t1 t2 t3) = [lin_c2 t1 t2, lin_c3 t1 t2 t3]"
  by (simp add: checkpoints_def master_commits_def lin_cfg_def st_cfg_def lin_repo_def
        lin_c1_def lin_c2_def lin_c3_def)

lemma lin_commit_sel:
  "hexsha (lin_c1 t1) = ''c1''" "hexsha (lin_c2 t1 t2) = ''c2''" "hexsha (lin_c3 t1 t2 t3) = ''c3''"
  "committed_date (lin_c1 t1) = t1" "committed_date (lin_c2 t1 t2) = t2"
  "committed_date (lin_c3 t1 t2 t3) = t3"
  "author_name (lin_c1 t1) = ''ann''" "author_name (lin_c2 t1 t2) = ''ann''"
  "author_name (lin_c3 t1 t2 t3) = ''ann''"
  "parents (lin_c1 t1) = []" "parents (lin_c2 t1 t2) = [lin_c1 t1]"
  "parents (lin_c3 t1 t2 t3) = [lin_c2 t1 t2]"
  "tree (lin_c1 t1) = lin_tree 2" "tree (lin_c2 t1 t2) = lin_tree 4"
  "tree (lin_c3 t1 t2 t3) = lin_tree 6"
  by (simp_all add: lin_c1_def lin_c2_def lin_c3_def)

lemma lin_repo_sel:
  "iter_commits (lin_repo t1 t2 t3) = [lin_c3 t1 t2 t3, lin_c2 t1 t2, lin_c1 t1]"
  "head_commit (lin_repo t1 t2 t3) = lin_c3 t1 t2 t3"
  "blame (lin_repo t1 t2 t3) = lin_blame t1 t2 t3"
  "diff (lin_repo t1 t2 t3) = lin_diff"
  by (simp_all add: lin_repo_def)

lemma lin_blobs:
  "tree c = lin_tree n \<Longrightarrow>
   get_blob_entries (lin_cfg f) c = [\<lparr>entry_type = Blob, entry_path = ''a.py'', entry_size = n\<rparr>]"
  by (simp add: get_blob_entries_def lin_tree_def path_ok_def lin_cfg_def st_cfg_def basename_def)

lemma splitext_a: "splitext ''a.py'' = (''a'', ''.py'')"
  by (simp add: splitext_def basename_def)

lemma name_a: "name \<lparr>entry_type = Blob, entry_path = ''a.py'', entry_size = n\<rparr> = ''a.py''"
  by (simp add: name_def basename_def)

lemma lin_index:
  "commit2cohort (full_index (lin_cfg f) (lin_repo t1 t2 t3))
     = [''c3'' \<mapsto> f t3, ''c2'' \<mapsto> f t2, ''c1'' \<mapsto> f t1]"
  "commit2timestamp (full_index (lin_cfg f) (lin_repo t1 t2 t3)) = [''c3'' \<mapsto> t3, ''c2'' \<mapsto> t2]"
  by (simp_all add: full_index_def list_commits_def index_commit_def lin_repo_sel lin_commit_sel
        lin_cfg_def st_cfg_def Let_def)

lemma lin_blame_keys:
  "blame_keys (lin_cfg f) (full_index (lin_cfg f) (lin_repo t1 t2 t3)) ''a.py'' (lin_c1 t1)
     = [(''cohort'', Str (f t1)), (''ext'', Str ''.py''), (''author'', Str ''ann''),
        (''filesize'', Num 2)]"
  "blame_keys (lin_cfg f) (full_index (lin_cfg f) (lin_repo t1 t2 t3)) ''a.py'' (lin_c2 t1 t2)
     = [(''cohort'', Str (f t2)), (''ext'', Str ''.py''), (''author'', Str ''ann''),
        (''filesize'', Num 4), (''sha'', Str ''c2'')]"
  "blame_keys (lin_cfg f) (full_index (lin_cfg f) (lin_repo t1 t2 t3)) ''a.py'' (lin_c3 t1 t2 t3)
     = [(''cohort'', Str (f t3)), (''ext'', Str ''.py''), (''author'', Str ''ann''),
        (''filesize'', Num 6), (''sha'', Str ''c3'')]"
  by (simp_all add: blame_keys_def lin_index lin_commit_sel lin_blobs [OF lin_commit_sel(13)]
        lin_blobs [OF lin_commit_sel(14)] lin_blobs [OF lin_commit_sel(15)] name_a splitext_a)

lemma lin_file_histogram:
  "get_file_histogram (lin_repo t1 t2 t3) (lin_cfg f) (full_index (lin_cfg f) (lin_repo t1 t2 t3))
     (lin_c2 t1 t2) ''a.py''
   = Inr (fold (\<lambda>key. hist_add key 1)
            [(''cohort'', Str (f t2)), (''ext'', Str ''.py''), (''author'', Str ''ann''),
             (''filesize'', Num 4), (''sha'', Str ''c2'')]
            [((''cohort'', Str (f t1)), 1), ((''ext'', Str ''.py''), 1),
             ((''author'', Str ''ann''), 1), ((''filesize'', Num 2), 1)], [])"
  "get_file_histogram (lin_repo t1 t2 t3) (lin_cfg f) (full_index (lin_cfg f) (lin_repo t1 t2 t3))
     (lin_c3 t1 t2 t3) ''a.py''
   = Inr (fold (\<lambda>key. hist_add key 1)
            [(''cohort'', Str (f t3)), (''ext'', Str ''.py''), (''author'', Str ''ann''),
             (''filesize'', Num 6), (''sha'', Str ''c3'')]
         (fold (\<lambda>key. hist_add key 1)
            [(''cohort'', Str (f t2)), (''ext'', Str ''.py''), (''author'', Str ''ann''),
             (''filesize'', Num 4), (''sha'', Str ''c2'')]
            [((''cohort'', Str (f t1)), 1), ((''ext'', Str ''.py''), 1),
             ((''author'', Str ''ann''), 1), ((''filesize'', Num 2), 1)]), [])"
  by (simp_all add: get_file_histogram_def lin_repo_sel lin_blame_def lin_commit_sel
        count_lines_def lin_blame_keys)

lemma hist_add_new: "k \<notin> fst ` set h \<Longrightarrow> hist_add k n h = h @ [(k, n)]"
  by (induction h) (auto simp: image_iff)

lemma hist_merge_append:
  "distinct (map fst (histogram @ h)) \<Longrightarrow> hist_merge h histogram = histogram @ h"
  unfolding hist_merge_def
proof (induction h arbitrary: histogram)
  case Nil
  show ?case by simp
next
  case (Cons x h)
  obtain k n where x: "x = (k, n)" by (cases x) auto
  have "k \<notin> fst ` set histogram"
    using Cons.prems by (auto simp: x)
  then have "hist_add k n histogram = histogram @ [(k, n)]"
    by (rule hist_add_new)
  then show ?case
    using Cons.IH [of "histogram @ [x]"] Cons.prems by (simp add: x)
qed

lemma hist_merge_empty: "distinct (map fst h) \<Longrightarrow> hist_merge h [] = h"
  using hist_merge_append [of "[]" h] by simp

lemma distinct_fold_count_lines:
  "distinct (map fst h) \<Longrightarrow> distinct (map fst (fold (count_lines cfg idx path) groups h))"
proof (induction groups arbitrary: h)
  case Nil
  then show ?case by simp
next
  case (Cons g groups)
  have "distinct (map fst (fold (\<lambda>key h. hist_add key n h) ks h))" if "distinct (map fst h)"
    for n ks and h :: hist
    using that by (induction ks arbitrary: h) (simp_all add: distinct_hist_add)
  then show ?case
    using Cons by (simp add: count_lines_def)
qed

lemma distinct_get_file_histogram:
  "get_file_histogram r cfg idx commit path = Inr (h, tb) \<Longrightarrow> distinct (map fst h)"
  using distinct_fold_count_lines [of "[]" cfg idx path]
  by (auto simp: get_file_histogram_def split: sum.splits error.splits)

lemma lin_changed:
  "changed_files (lin_diff c None) = {}"
  "changed_files (lin_diff c (Some c')) = {''a.py''}"
  by (simp_all add: changed_files_def lin_diff_def)

lemma lin_process_c2:
  assumes "get_file_histogram (lin_repo t1 t2 t3) (lin_cfg f)
             (full_index (lin_cfg f) (lin_repo t1 t2 t3)) (lin_c2 t1 t2) ''a.py'' = Inr (h2, [])"
  shows "process_commit (lin_repo t1 t2 t3) (lin_cfg f)
           (full_index (lin_cfg f) (lin_repo t1 t2 t3)) init_state (lin_c2 t1 t2)
         = Inr (h2, \<lparr>curves = append_curves (curves_set (full_index (lin_cfg f) (lin_repo t1 t2 t3))) h2 [],
                     ts = [t2], file_histograms = [''a.py'' \<mapsto> h2],
                     last_commit = Some (lin_c2 t1 t2),
                     commit_history = record_survival (lin_c2 t1 t2) h2 [],
                     reported = []\<rparr>)"
  using assms hist_merge_empty [OF distinct_get_file_histogram [OF assms]]
  by (simp add: process_commit_def init_state_def lin_repo_sel lin_changed
        lin_blobs [OF lin_commit_sel(14)] lin_commit_sel)

lemma lin_process_c3:
  assumes "get_file_histogram (lin_repo t1 t2 t3) (lin_cfg f)
             (full_index (lin_cfg f) (lin_repo t1 t2 t3)) (lin_c3 t1 t2 t3) ''a.py'' = Inr (h3, [])"
      and "last_commit st = Some c'" and "reported st = []"
  shows "process_commit (lin_repo t1 t2 t3) (lin_cfg f)
           (full_index (lin_cfg f) (lin_repo t1 t2 t3)) st (lin_c3 t1 t2 t3)
         = Inr (h3, \<lparr>curves = append_curves (curves_set (full_index (lin_cfg f) (lin_repo t1 t2 t3))) h3 (curves st),
                     ts = ts st @ [t3], file_histograms = (file_histograms st)(''a.py'' \<mapsto> h3),
                     last_commit = Some (lin_c3 t1 t2 t3),
                     commit_history = record_survival (lin_c3 t1 t2 t3) h3 (commit_history st),
                     reported = []\<rparr>)"
  using assms hist_merge_empty [OF distinct_get_file_histogram [OF assms(1)]]
  by (simp add: process_commit_def lin_repo_sel lin_changed
        lin_blobs [OF lin_commit_sel(15)] lin_commit_sel)

lemma filter_insert:
  "filter P (List.insert x xs) = (if P x \<and> x \<notin> set xs then x # filter P xs else filter P xs)"
  by (simp add: List.insert_def)

lemma filter_fold_insert_other:
  assumes "\<And>b. \<not> P (g b)" "\<And>b. \<not> P (g' b)"
  shows "filter P (fold (\<lambda>b cs. List.insert (g b) (List.insert (g' b) cs)) bs cs) = filter P cs"
  using assms by (induction bs arbitrary: cs) (simp_all add: filter_insert)

lemma cohort_keys_count_entries:
  "filter (\<lambda>k. fst k = ''cohort'') (count_entries cfg commits cs) = filter (\<lambda>k. fst k = ''cohort'') cs"
  unfolding count_entries_def
  by (induction commits arbitrary: cs) (simp_all add: filter_fold_insert_other)

lemma lin_cohort_keys:
  "filter (\<lambda>k. fst k = ''cohort'') (curves_set (full_index (lin_cfg f) (lin_repo t1 t2 t3)))
     = remdups [(''cohort'', Str (f t1)), (''cohort'', Str (f t2)), (''cohort'', Str (f t3))]"
  by (simp add: full_index_def Let_def cohort_keys_count_entries list_commits_def lin_repo_sel
        index_commit_def lin_commit_sel filter_insert lin_cfg_def st_cfg_def)

text \<open>
  Claim C1, as the code has it. For a history of three commits on the analyzed branch,
  each adding one line to the same file, with interval 0 and the second commit older
  than the third: the checkpoints are the second and the third commit (the walk stops at
  the root, which is never a checkpoint); the totals of the cohort series are 2 and 3;
  the survival document has two entries, the second commit with a pair \<open>(t, 1)\<close> at
  both checkpoints and the third with one pair (the root has no parent and is not
  tracked).
\<close>

theorem three_commits_scenario:
  assumes "t2 < t3"
  shows "checkpoints (lin_cfg f) (lin_repo t1 t2 t3) = [lin_c2 t1 t2, lin_c3 t1 t2 t3]
       \<and> series_totals (lin_cfg f) (lin_repo t1 t2 t3) ''cohort'' = [2, 3]
       \<and> survival_document (lin_cfg f) (lin_repo t1 t2 t3)
           = [(Str ''c2'', [(t2, 1), (t3, 1)]), (Str ''c3'', [(t3, 1)])]"
proof -
  let ?r = "lin_repo t1 t2 t3" and ?cfg = "lin_cfg f"
  let ?idx = "full_index ?cfg ?r"
  let ?cs = "curves_set ?idx"
  define H2 where "H2 = fold (\<lambda>key. hist_add key 1)
            [(''cohort'', Str (f t2)), (''ext'', Str ''.py''), (''author'', Str ''ann''),
             (''filesize'', Num 4), (''sha'', Str ''c2'')]
            [((''cohort'', Str (f t1)), 1), ((''ext'', Str ''.py''), 1),
             ((''author'', Str ''ann''), 1), ((''filesize'', Num 2), 1)]"
  define H3 where "H3 = fold (\<lambda>key. hist_add key 1)
            [(''cohort'', Str (f t3)), (''ext'', Str ''.py''), (''author'', Str ''ann''),
             (''filesize'', Num 6), (''sha'', Str ''c3'')] H2"
  define st2 where "st2 = \<lparr>curves = append_curves ?cs H2 [],
                     ts = [t2], file_histograms = [''a.py'' \<mapsto> H2],
                     last_commit = Some (lin_c2 t1 t2),
                     commit_history = record_survival (lin_c2 t1 t2) H2 [],
                     reported = []\<rparr>"
  define st3 where "st3 = \<lparr>curves = append_curves ?cs H3 (curves st2),
                     ts = ts st2 @ [t3], file_histograms = (file_histograms st2)(''a.py'' \<mapsto> H3),
                     last_commit = Some (lin_c3 t1 t2 t3),
                     commit_history = record_survival (lin_c3 t1 t2 t3) H3 (commit_history st2),
                     reported = []\<rparr>"
  have g2: "get_file_histogram ?r ?cfg ?idx (lin_c2 t1 t2) ''a.py'' = Inr (H2, [])"
    unfolding H2_def by (rule lin_file_histogram(1))
  have g3: "get_file_histogram ?r ?cfg ?idx (lin_c3 t1 t2 t3) ''a.py'' = Inr (H3, [])"
    unfolding H3_def H2_def by (rule lin_file_histogram(2))
  have p2: "process_commit ?r ?cfg ?idx init_state (lin_c2 t1 t2) = Inr (H2, st2)"
    unfolding st2_def by (rule lin_process_c2 [OF g2])
  have p3: "process_commit ?r ?cfg ?idx st2 (lin_c3 t1 t2 t3) = Inr (H3, st3)"
    unfolding st3_def by (rule lin_process_c3 [OF g3]) (simp_all add: st2_def)
  have cps: "checkpoints ?cfg ?r = [lin_c2 t1 t2, lin_c3 t1 t2 t3]"
    using assms by (rule lin_checkpoints)
  have l: "analyze_loop ?r ?cfg ?idx init_state (checkpoints ?cfg ?r) = Inr ([H2, H3], st3)"
    by (simp add: cps p2 p3)
  then have a: "analyze ?cfg ?r = Inr ([H2, H3], st3)"
    by (simp add: analyze_def)
  have doc: "commit_history st3 = [(Str ''c2'', [(t2, 1), (t3, 1)]), (Str ''c3'', [(t3, 1)])]"
    by (simp add: st3_def st2_def record_survival_def H3_def H2_def lin_commit_sel)
  have series: "map_of (curves st3) k = Some [hist_get H2 k, hist_get H3 k]"
    if "k \<in> set (filter (\<lambda>k. fst k = ''cohort'') ?cs)" for k
    using analyze_loop_curves [OF distinct_curves_set l, of k] that
    by (simp add: cps init_state_def)
  have tot: "series_total ?cs (curves st3) ''cohort'' i
      = sum_list (map (\<lambda>k. [hist_get H2 k, hist_get H3 k] ! i)
          (remdups [(''cohort'', Str (f t1)), (''cohort'', Str (f t2)), (''cohort'', Str (f t3))]))"
    if "i < 2" for i
  proof -
    have "map (\<lambda>k. case map_of (curves st3) k of None \<Rightarrow> 0
                    | Some l \<Rightarrow> if i < length l then l ! i else 0)
              (filter (\<lambda>k. fst k = ''cohort'') ?cs)
        = map (\<lambda>k. [hist_get H2 k, hist_get H3 k] ! i) (filter (\<lambda>k. fst k = ''cohort'') ?cs)"
      using that by (intro map_cong refl) (simp add: series)
    then show ?thesis
      by (simp only: series_total_def lin_cohort_keys)
  qed
  have "series_total ?cs (curves st3) ''cohort'' 0 = 2"
    by (simp add: tot H2_def H3_def hist_get_def)
  moreover have "series_total ?cs (curves st3) ''cohort'' (Suc 0) = 3"
    by (simp add: tot H2_def H3_def hist_get_def)
  ultimately have "series_totals ?cfg ?r ''cohort'' = [2, 3]"
    by (simp add: series_totals_def a upt_rec)
  then show ?thesis
    using cps doc by (simp add: survival_document_def a)
qed

theorem three_commits_scenario_witness:
  "(200::int) < 300
   \<and> checkpoints (lin_cfg (strftime st_cfg)) (lin_repo 100 200 300)
       = [lin_c2 100 200, lin_c3 100 200 300]
   \<and> series_totals (lin_cfg (strftime st_cfg)) (lin_repo 100 200 300) ''cohort'' = [2, 3]
   \<and> survival_document (lin_cfg (strftime st_cfg)) (lin_repo 100 200 300)
       = [(Str ''c2'', [(200, 1), (300, 1)]), (Str ''c3'', [(300, 1)])]"
proof -
  have lt: "(200::int) < 300" by simp
  show ?thesis
    using three_commits_scenario [OF lt, of "strftime st_cfg" 100] lt by simp
qed

end
